theory Spec2Isabelle
  imports Main
begin

section \<open>Data model of \<open>packages/vitest/src/typescript/parser.ts\<close>\<close>

text \<open>
  Tasks, suites and files are JavaScript objects that the code shares and mutates
  (\<open>suite.tasks.push\<close>, \<open>task.result = ...\<close>), so they live in an explicit
  store: a reference is a natural number and the store maps every reference to the
  object it denotes (a JavaScript reference is never dangling). Line numbers, column
  numbers and offsets are the non-negative integers the checker and the parser emit.
\<close>

type_synonym ref = nat

datatype RunMode = Run | Skip | Only | Todo

text \<open>\<open>TaskState = RunMode | 'pass' | 'fail'\<close>\<close>

datatype TaskState = Mode RunMode | Pass | Fail

record ParsedStack =
  stack_file :: string
  stack_line :: nat
  stack_column :: nat
  stack_method :: string
  sourcePos :: "nat \<times> nat"

text \<open>
  \<open>class TypeCheckError extends Error\<close>. The field \<open>captured\<close> is the value of
  \<open>Error.stackTraceLimit\<close> at the time \<open>super(message)\<close> ran: the number of
  call-stack frames the runtime was allowed to capture into the error.
\<close>

record TypeCheckError =
  name :: string
  message :: string
  stacks :: "ParsedStack list"
  captured :: nat

record TaskResult =
  state :: TaskState
  error :: "TypeCheckError option"

text \<open>
  The object literal of lines 111--122. It is created, pushed onto one \<open>tasks\<close>
  array and never written again, so it is kept by value inside that array.
\<close>

record TypecheckTask =
  tc_id :: string
  tc_name :: string
  tc_mode :: RunMode
  tc_file :: ref
  tc_suite :: ref
  tc_result :: TaskResult

datatype TaskEntry = Child ref | Typecheck TypecheckTask

text \<open>A suite, test or file object as far as this module reads and writes it.\<close>

record Task =
  mode :: RunMode
  suite :: "ref option"
  result :: "TaskResult option"
  tasks :: "TaskEntry list"

type_synonym store = "ref \<Rightarrow> Task"

section \<open>Ancestor-failure propagation (lines 94--100)\<close>

definition failState :: "RunMode \<Rightarrow> TaskState" where
  "failState m = (if m = Run \<or> m = Only then Fail else Mode m)"

definition setFailed :: "ref \<Rightarrow> store \<Rightarrow> store" where
  "setFailed t h = h(t := (h t)\<lparr>result := Some \<lparr>state = failState (mode (h t)), error = None\<rparr>\<rparr>)"

text \<open>
  \<open>markFailed\<close> follows the \<open>suite\<close> back-reference for as long as there is one.
  On a cyclic store it never returns, which is the value \<open>None\<close>.
\<close>

partial_function (option) markFailed :: "store \<Rightarrow> ref \<Rightarrow> store option" where
  "markFailed h t =
     (case suite (setFailed t h t) of
        Some p \<Rightarrow> markFailed (setFailed t h) p
      | None \<Rightarrow> Some (setFailed t h))"

text \<open>
  \<open>ancestors h t ps\<close>: the chain of \<open>suite\<close> back-references that starts at
  \<open>t\<close> is the finite list \<open>ps\<close> and ends in an object without a parent.
\<close>

primrec ancestors :: "store \<Rightarrow> ref \<Rightarrow> ref list \<Rightarrow> bool" where
  "ancestors h t [] = (suite (h t) = None)"
| "ancestors h t (p # ps) = (suite (h t) = Some p \<and> ancestors h p ps)"

section \<open>Parsed diagnostics (lines 140--169)\<close>

record TscErrorInfo =
  filePath :: string
  errCode :: nat
  errMsg :: string
  line :: nat
  column :: nat

text \<open>
  \<open>new TypeCheckError(message, stacks)\<close>: the constructor runs \<open>super(message)\<close>
  under the current \<open>Error.stackTraceLimit\<close>, the first argument here.
\<close>

definition newTypeCheckError :: "nat \<Rightarrow> string \<Rightarrow> ParsedStack list \<Rightarrow> TypeCheckError" where
  "newTypeCheckError limit msg frames =
     \<lparr>name = ''TypeCheckError'', message = msg, stacks = frames, captured = limit\<rparr>"

text \<open>
  The callback of \<open>errors.map\<close> (lines 145--165), with the global
  \<open>Error.stackTraceLimit\<close> passed in and returned.
\<close>

definition makeSuiteError ::
  "string \<Rightarrow> TscErrorInfo \<Rightarrow> nat \<Rightarrow> (TypeCheckError \<times> TscErrorInfo) \<times> nat" where
  "makeSuiteError filepath info stackTraceLimit0 =
     (let limit = stackTraceLimit0;
          stackTraceLimit1 = 0;
          err = newTypeCheckError stackTraceLimit1 (errMsg info)
                  [\<lparr>stack_file = filepath, stack_line = line info, stack_column = column info,
                    stack_method = [], sourcePos = (line info, column info)\<rparr>];
          stackTraceLimit2 = limit
      in ((err, info), stackTraceLimit2))"

fun makeSuiteErrors ::
  "string \<Rightarrow> TscErrorInfo list \<Rightarrow> nat \<Rightarrow> (TypeCheckError \<times> TscErrorInfo) list \<times> nat" where
  "makeSuiteErrors filepath [] g = ([], g)"
| "makeSuiteErrors filepath (info # infos) g =
     (case makeSuiteError filepath info g of
        (e, g') \<Rightarrow> (case makeSuiteErrors filepath infos g' of (es, g'') \<Rightarrow> (e # es, g'')))"

text \<open>
  A JavaScript \<open>Map\<close> keeps its keys in insertion order: \<open>set\<close> on a key that
  is present replaces the value where it stands, on a new key it appends.
\<close>

fun mapSet :: "('k \<times> 'v) list \<Rightarrow> 'k \<Rightarrow> 'v \<Rightarrow> ('k \<times> 'v) list" where
  "mapSet [] k v = [(k, v)]"
| "mapSet ((k', v') # m) k v = (if k' = k then (k, v) # m else (k', v') # mapSet m k v)"

definition mapGet :: "('k \<times> 'v) list \<Rightarrow> 'k \<Rightarrow> 'v option" where
  "mapGet m k = map_of m k"

type_synonym typeErrorsMap = "(string \<times> (TypeCheckError \<times> TscErrorInfo) list) list"

text \<open>
  \<open>errorsMap.forEach\<close> of \<open>parseTscLikeOutput\<close>; \<open>resolvePath\<close> stands for
  \<open>resolve(this.ctx.config.root, path)\<close> of the package \<open>pathe\<close>.
\<close>

fun eachRawError ::
  "(string \<Rightarrow> string) \<Rightarrow> (string \<times> TscErrorInfo list) list \<Rightarrow> typeErrorsMap \<Rightarrow> nat
     \<Rightarrow> typeErrorsMap \<times> nat" where
  "eachRawError resolvePath [] typesErrors g = (typesErrors, g)"
| "eachRawError resolvePath ((path, errors) # rest) typesErrors g =
     (let filepath = resolvePath path in
      case makeSuiteErrors filepath errors g of
        (suiteErrors, g') \<Rightarrow>
          eachRawError resolvePath rest (mapSet typesErrors filepath suiteErrors) g')"

section \<open>Position translation and definition lookup (lines 90--109)\<close>

record NullablePosition =
  pos_line :: "nat option"
  pos_column :: "nat option"

text \<open>
  The consumer of the package \<open>source-map-js\<close>, as the two position lookups of its
  interface: \<open>generatedPositionFor\<close> takes an original line, column and source and
  answers in generated coordinates, \<open>originalPositionFor\<close> takes a generated line and
  column and answers in original coordinates. Both answer an object whose line and
  column are \<open>null\<close> when nothing is mapped.
\<close>

record SourceMapConsumer =
  generatedPositionFor :: "nat \<times> nat \<times> string \<Rightarrow> NullablePosition"
  originalPositionFor :: "nat \<times> nat \<Rightarrow> NullablePosition"

record LocalCallDefinition =
  start :: nat
  end_offset :: nat
  task :: ref

text \<open>
  \<open>FileInformation\<close> of \<open>collect.ts\<close>. The field \<open>sourceMap\<close> is the source's
  \<open>map\<close>, held as the consumer that \<open>new SourceMapConsumer(map)\<close> builds from it;
  \<open>None\<close> is the missing map of a \<open>.js\<close> file under \<open>// @ts-check\<close>.
\<close>

record FileInformation =
  file_ref :: ref
  filepath :: string
  parsed :: string
  sourceMap :: "SourceMapConsumer option"
  definitions :: "LocalCallDefinition list"

text \<open>\<open>Number.prototype.toString\<close> on a non-negative integer: its decimal digits.\<close>

definition digitChar :: "nat \<Rightarrow> char" where
  "digitChar d = char_of (of_char CHR ''0'' + d)"

function toString :: "nat \<Rightarrow> string" where
  "toString n =
     (case n div 10 of
        0 \<Rightarrow> [digitChar n]
      | Suc q \<Rightarrow> toString (Suc q) @ [digitChar (n mod 10)])"
  by pat_completeness auto
termination
  by (relation "measure id") auto

declare toString.simps [simp del]

text \<open>Line 102--106. The object a consumer answers is truthy, so \<open>||\<close> falls back
  to the reported position only when there is no consumer.\<close>

definition originalPos :: "SourceMapConsumer option \<Rightarrow> string \<Rightarrow> TscErrorInfo \<Rightarrow> NullablePosition" where
  "originalPos mapConsumer path originalError =
     (case mapConsumer of
        Some c \<Rightarrow> generatedPositionFor c (line originalError, column originalError, path)
      | None \<Rightarrow> \<lparr>pos_line = Some (line originalError), pos_column = Some (column originalError)\<rparr>)"

definition showNullable :: "nat option \<Rightarrow> string" where
  "showNullable v = (case v of None \<Rightarrow> ''null'' | Some n \<Rightarrow> toString n)"

definition positionKey :: "NullablePosition \<Rightarrow> string" where
  "positionKey p = showNullable (pos_line p) @ '':'' @ showNullable (pos_column p)"

text \<open>Line 90: a stable sort by descending \<open>start\<close>. The source sorts the array of the
  cache in place; sorting it again gives the same order.\<close>

definition sortedDefinitions :: "LocalCallDefinition list \<Rightarrow> LocalCallDefinition list" where
  "sortedDefinitions defs = sort_key (\<lambda>d. - int (start d)) defs"

definition contains :: "nat \<Rightarrow> LocalCallDefinition \<Rightarrow> bool" where
  "contains index def = (start def \<le> index \<and> end_offset def \<ge> index)"

text \<open>Line 108, up to the fallback: the definition found, if any.\<close>

definition findDefinition :: "LocalCallDefinition list \<Rightarrow> nat option \<Rightarrow> LocalCallDefinition option" where
  "findDefinition defs index =
     (case index of
        None \<Rightarrow> None
      | Some i \<Rightarrow> List.find (contains i) (sortedDefinitions defs))"

text \<open>
  Lines 102--109 for one diagnostic: the suite that will own its task. The index map is
  \<open>createIndexMap(parsed)\<close> of \<open>utils.ts\<close>, a parameter here.
\<close>

definition owningSuite ::
  "(string \<Rightarrow> string \<Rightarrow> nat option) \<Rightarrow> FileInformation \<Rightarrow> string \<Rightarrow> TscErrorInfo \<Rightarrow> ref" where
  "owningSuite createIndexMap info path originalError =
     (let indexMap = createIndexMap (parsed info);
          index = indexMap (positionKey (originalPos (sourceMap info) path originalError))
      in case findDefinition (definitions info) index of
           Some definition \<Rightarrow> task definition
         | None \<Rightarrow> file_ref info)"

section \<open>Synthetic tasks (lines 101--126)\<close>

definition typecheckTask :: "store \<Rightarrow> ref \<Rightarrow> ref \<Rightarrow> nat \<Rightarrow> TypeCheckError \<Rightarrow> TypecheckTask" where
  "typecheckTask h fileRef suiteRef idx err =
     (let st = failState (mode (h suiteRef)) in
      \<lparr>tc_id = toString idx,
       tc_name = ''error expect '' @ toString (idx + 1),
       tc_mode = mode (h suiteRef),
       tc_file = fileRef,
       tc_suite = suiteRef,
       tc_result = \<lparr>state = st, error = (if st = Fail then Some err else None)\<rparr>\<rparr>)"

definition pushTask :: "ref \<Rightarrow> TypecheckTask \<Rightarrow> store \<Rightarrow> store" where
  "pushTask s t h = h(s := (h s)\<lparr>tasks := tasks (h s) @ [Typecheck t]\<rparr>)"

text \<open>The body of \<open>errors.forEach\<close> for the diagnostic at index \<open>idx\<close>.\<close>

definition attachError ::
  "(string \<Rightarrow> string \<Rightarrow> nat option) \<Rightarrow> FileInformation \<Rightarrow> string \<Rightarrow> nat
     \<Rightarrow> TypeCheckError \<times> TscErrorInfo \<Rightarrow> store \<Rightarrow> store option" where
  "attachError createIndexMap info path idx e h =
     (let s = owningSuite createIndexMap info path (snd e);
          t = typecheckTask h (file_ref info) s idx (fst e)
      in case (if state (tc_result t) = Fail then markFailed h s else Some h) of
           None \<Rightarrow> None
         | Some h' \<Rightarrow> Some (pushTask s t h'))"

fun attachErrors ::
  "(string \<Rightarrow> string \<Rightarrow> nat option) \<Rightarrow> FileInformation \<Rightarrow> string \<Rightarrow> nat
     \<Rightarrow> (TypeCheckError \<times> TscErrorInfo) list \<Rightarrow> store \<Rightarrow> store option" where
  "attachErrors createIndexMap info path idx [] h = Some h"
| "attachErrors createIndexMap info path idx (e # es) h =
     (case attachError createIndexMap info path idx e h of
        None \<Rightarrow> None
      | Some h' \<Rightarrow> attachErrors createIndexMap info path (Suc idx) es h')"

section \<open>The result-building pipeline (lines 59--138)\<close>

record ErrorsCache =
  files :: "ref list"
  sourceErrors :: "TypeCheckError list"

text \<open>What the handlers registered with \<open>onParseStart\<close>, \<open>onWatcherRerun\<close> and
  \<open>onParseEnd\<close> are called with, in the order of the calls.\<close>

datatype Callback = OnParseStart | OnWatcherRerun | OnParseEnd ref

text \<open>
  The functions of the repository and of its packages that the module imports and whose
  code is elsewhere: \<open>getRawErrsMapFromTsCompile\<close> (\<open>parse.ts\<close>), \<open>resolve\<close>
  applied to the configured root (\<open>pathe\<close>), \<open>createIndexMap\<close> (\<open>utils.ts\<close>)
  and \<open>collectTests\<close> (\<open>collect.ts\<close>), which builds new file and suite objects
  and so takes and returns the store.
\<close>

record Imports =
  getRawErrsMapFromTsCompile :: "string \<Rightarrow> (string \<times> TscErrorInfo list) list"
  resolvePath :: "string \<Rightarrow> string"
  createIndexMap :: "string \<Rightarrow> string \<Rightarrow> nat option"
  collectFileTests :: "string \<Rightarrow> store \<Rightarrow> FileInformation option \<times> store"

text \<open>
  A \<open>Typechecker\<close> instance with what it reaches: the constructor's \<open>files\<close>,
  \<open>_tests\<close> (\<open>None\<close> is \<open>null\<close>), \<open>_result\<close> as a reference into the store
  of snapshot objects, the store of task objects, the global
  \<open>Error.stackTraceLimit\<close>, and the locals of \<open>start\<close> that the \<open>data\<close>
  handler closes over. \<open>pending\<close> holds the outputs whose \<open>prepareResults\<close>
  promise has not settled yet.
\<close>

record Typechecker =
  this_files :: "string list"
  tests :: "(string \<Rightarrow> FileInformation option) option"
  result_ref :: ref
  snapshots :: "ref \<Rightarrow> ErrorsCache"
  allocated :: nat
  objects :: store
  stackTraceLimit :: nat
  watch :: bool
  outputBuf :: string
  rerunTriggered :: bool
  pending :: "string list"
  calls :: "Callback list"

datatype exn = TypeError

definition parseTscLikeOutput :: "Imports \<Rightarrow> string \<Rightarrow> nat \<Rightarrow> typeErrorsMap \<times> nat" where
  "parseTscLikeOutput imp out g =
     eachRawError (resolvePath imp) (getRawErrsMapFromTsCompile imp out) [] g"

text \<open>\<open>new Set(this.files)\<close>, in insertion order.\<close>

primrec newSet :: "'a list \<Rightarrow> 'a list" where
  "newSet [] = []"
| "newSet (x # xs) = x # removeAll x (newSet xs)"

text \<open>\<open>Promise.all(this.files.map(collectFileTests))\<close>, one file after the other.\<close>

fun collectAll ::
  "Imports \<Rightarrow> string list \<Rightarrow> store \<Rightarrow> FileInformation option list \<times> store" where
  "collectAll imp [] h = ([], h)"
| "collectAll imp (p # ps) h =
     (case collectFileTests imp p h of
        (d, h') \<Rightarrow> (case collectAll imp ps h' of (ds, h'') \<Rightarrow> (d # ds, h'')))"

definition reduceTests ::
  "FileInformation option list \<Rightarrow> (string \<Rightarrow> FileInformation option)" where
  "reduceTests datas =
     foldl (\<lambda>acc d. case d of None \<Rightarrow> acc | Some i \<Rightarrow> acc(filepath i \<mapsto> i)) Map.empty datas"

definition collectTests ::
  "Imports \<Rightarrow> Typechecker \<Rightarrow> (string \<Rightarrow> FileInformation option) \<times> Typechecker" where
  "collectTests imp s =
     (case collectAll imp (this_files s) (objects s) of
        (datas, h') \<Rightarrow>
          (reduceTests datas, s\<lparr>objects := h', tests := Some (reduceTests datas)\<rparr>))"

text \<open>
  \<open>testFiles.forEach\<close> (lines 84--127). Destructuring \<open>tests[path]\<close> when the
  record has no such key throws a \<open>TypeError\<close>; what was pushed before stays pushed.
  The keys are the paths of files, as \<open>collect.ts\<close> resolves them: none of them is
  the name of a member of \<open>Object.prototype\<close>, which a lookup in the plain object
  would find without a key.
\<close>

fun eachTestFile ::
  "Imports \<Rightarrow> (string \<Rightarrow> FileInformation option) \<Rightarrow> typeErrorsMap \<Rightarrow> string list
     \<Rightarrow> ref list \<Rightarrow> store \<Rightarrow> ((exn + ref list) \<times> store) option" where
  "eachTestFile imp tsts typeErrors [] fs h = Some (Inr fs, h)"
| "eachTestFile imp tsts typeErrors (path # paths) fs h =
     (case tsts path of
        None \<Rightarrow> Some (Inl TypeError, h)
      | Some info \<Rightarrow>
          (case mapGet typeErrors path of
             None \<Rightarrow> eachTestFile imp tsts typeErrors paths (fs @ [file_ref info]) h
           | Some errors \<Rightarrow>
               (case attachErrors (createIndexMap imp) info path 0 errors h of
                  None \<Rightarrow> None
                | Some h' \<Rightarrow>
                    eachTestFile imp tsts typeErrors paths (fs @ [file_ref info]) h')))"

text \<open>\<open>typeErrors.forEach\<close> of lines 129--132.\<close>

definition collectSourceErrors :: "string list \<Rightarrow> typeErrorsMap \<Rightarrow> TypeCheckError list" where
  "collectSourceErrors testFiles typeErrors =
     concat (map (\<lambda>(path, errors). if path \<in> set testFiles then [] else map fst errors)
               typeErrors)"

text \<open>The cache \<open>prepareResults\<close> works with, and the instance after line 79.\<close>

definition currentTests ::
  "Imports \<Rightarrow> Typechecker \<Rightarrow> (string \<Rightarrow> FileInformation option) \<times> Typechecker" where
  "currentTests imp s = (case tests s of Some t \<Rightarrow> (t, s) | None \<Rightarrow> collectTests imp s)"

definition prepareResults ::
  "Imports \<Rightarrow> string \<Rightarrow> Typechecker \<Rightarrow> ((exn + ErrorsCache) \<times> Typechecker) option" where
  "prepareResults imp out s0 =
     (case parseTscLikeOutput imp out (stackTraceLimit s0) of
        (typeErrors, g) \<Rightarrow>
          (let s1 = s0\<lparr>stackTraceLimit := g\<rparr>;
               testFiles = newSet (this_files s1)
           in case currentTests imp s1 of
                (tsts, s2) \<Rightarrow>
                  (case eachTestFile imp tsts typeErrors testFiles [] (objects s2) of
                     None \<Rightarrow> None
                   | Some (Inl e, h) \<Rightarrow> Some (Inl e, s2\<lparr>objects := h\<rparr>)
                   | Some (Inr fs, h) \<Rightarrow>
                       Some (Inr \<lparr>files = fs,
                                  sourceErrors = collectSourceErrors testFiles typeErrors\<rparr>,
                             s2\<lparr>objects := h\<rparr>))))"

section \<open>The session (lines 177--222)\<close>

fun startsWith :: "string \<Rightarrow> string \<Rightarrow> bool" where
  "startsWith s [] = True"
| "startsWith [] (p # ps) = False"
| "startsWith (c # cs) (p # ps) = (c = p \<and> startsWith cs ps)"

text \<open>\<open>String.prototype.includes\<close>\<close>

fun includes_str :: "string \<Rightarrow> string \<Rightarrow> bool" where
  "includes_str [] sub = startsWith [] sub"
| "includes_str (c # cs) sub = (startsWith (c # cs) sub \<or> includes_str cs sub)"

text \<open>
  The regular expression \<open>/Found \w+ errors*. Watching for/\<close>, by backtracking.
  \<open>\w\<close> is a letter, a digit or the underscore; \<open>.\<close> is any character but a
  line terminator.
\<close>

definition wordChar :: "char \<Rightarrow> bool" where
  "wordChar c = (let n = (of_char c :: nat) in
     (48 \<le> n \<and> n \<le> 57) \<or> (65 \<le> n \<and> n \<le> 90) \<or> n = 95 \<or> (97 \<le> n \<and> n \<le> 122))"

definition lineTerminator :: "char \<Rightarrow> bool" where
  "lineTerminator c = (of_char c = (10::nat) \<or> of_char c = (13::nat))"

text \<open>\<open>s*. Watching for\<close>\<close>

fun matchPlural :: "string \<Rightarrow> bool" where
  "matchPlural [] = False"
| "matchPlural (c # cs) =
     ((c = CHR ''s'' \<and> matchPlural cs) \<or> (\<not> lineTerminator c \<and> startsWith cs '' Watching for''))"

text \<open>\<open>\w+ errors*. Watching for\<close>\<close>

fun matchCount :: "string \<Rightarrow> bool" where
  "matchCount [] = False"
| "matchCount (c # cs) =
     (wordChar c \<and> (matchCount cs \<or> (startsWith cs '' error'' \<and> matchPlural (drop 6 cs))))"

definition matchHere :: "string \<Rightarrow> bool" where
  "matchHere s = (startsWith s ''Found '' \<and> matchCount (drop 6 s))"

fun passComplete :: "string \<Rightarrow> bool" where
  "passComplete [] = matchHere []"
| "passComplete (c # cs) = (matchHere (c # cs) \<or> passComplete cs)"

text \<open>The \<open>data\<close> handler (lines 197--216), up to the call of \<open>prepareResults\<close>,
  whose promise joins \<open>pending\<close>.\<close>

definition rerunDetected :: "Typechecker \<Rightarrow> Typechecker" where
  "rerunDetected s =
     (if includes_str (outputBuf s) ''File change detected'' \<and> \<not> rerunTriggered s
      then s\<lparr>calls := calls s @ [OnWatcherRerun],
             snapshots := (snapshots s)(result_ref s := (snapshots s (result_ref s))\<lparr>sourceErrors := []\<rparr>\<lparr>files := []\<rparr>),
             tests := None,
             rerunTriggered := True\<rparr>
      else s)"

definition passCompleted :: "Typechecker \<Rightarrow> Typechecker" where
  "passCompleted s =
     (if passComplete (outputBuf s)
      then s\<lparr>rerunTriggered := False, pending := pending s @ [outputBuf s], outputBuf := []\<rparr>
      else s)"

definition onData :: "string \<Rightarrow> Typechecker \<Rightarrow> Typechecker" where
  "onData chunk s =
     (let s1 = s\<lparr>outputBuf := outputBuf s @ chunk\<rparr>
      in if \<not> watch s1 then s1 else passCompleted (rerunDetected s1))"

text \<open>\<open>this._result = result; this._onParseEnd?.(result)\<close>, where \<open>result\<close> is
  the object that \<open>prepareResults\<close> has just built.\<close>

definition publish :: "ErrorsCache \<Rightarrow> Typechecker \<Rightarrow> Typechecker" where
  "publish res s =
     s\<lparr>snapshots := (snapshots s)(allocated s := res),
       result_ref := allocated s,
       allocated := Suc (allocated s),
       calls := calls s @ [OnParseEnd (allocated s)]\<rparr>"

text \<open>The oldest pending \<open>prepareResults\<close> promise settles (lines 210--213). A
  rejected promise publishes nothing.\<close>

definition settle :: "Imports \<Rightarrow> Typechecker \<Rightarrow> Typechecker option" where
  "settle imp s =
     (case pending s of
        [] \<Rightarrow> Some s
      | out # rest \<Rightarrow>
          (case prepareResults imp out (s\<lparr>pending := rest\<rparr>) of
             None \<Rightarrow> None
           | Some (Inl e, s') \<Rightarrow> Some s'
           | Some (Inr res, s') \<Rightarrow> Some (publish res s')))"

text \<open>Lines 217--221: the end of a one-shot run.\<close>

definition finishOneShot :: "Imports \<Rightarrow> Typechecker \<Rightarrow> ((exn + unit) \<times> Typechecker) option" where
  "finishOneShot imp s =
     (case prepareResults imp (outputBuf s) s of
        None \<Rightarrow> None
      | Some (Inl e, s') \<Rightarrow> Some (Inl e, s')
      | Some (Inr res, s') \<Rightarrow> Some (Inr (), publish res s'))"

text \<open>
  The constructor with the field initialisers of lines 28--39, in a given store of task
  objects and under a given stack-trace limit, and lines 189--196 of \<open>start\<close>.
\<close>

definition newTypechecker :: "string list \<Rightarrow> bool \<Rightarrow> store \<Rightarrow> nat \<Rightarrow> Typechecker" where
  "newTypechecker fs w h limit =
     \<lparr>this_files = fs, tests = Some Map.empty, result_ref = 0,
      snapshots = (\<lambda>_. \<lparr>files = [], sourceErrors = []\<rparr>), allocated = 1,
      objects = h, stackTraceLimit = limit, watch = w, outputBuf = [],
      rerunTriggered = False, pending = [], calls = []\<rparr>"

definition startSession :: "Typechecker \<Rightarrow> Typechecker" where
  "startSession s = s\<lparr>outputBuf := [], calls := calls s @ [OnParseStart], rerunTriggered := False\<rparr>"

text \<open>The chunks of a stream, handled in the order received.\<close>

definition feed :: "string list \<Rightarrow> Typechecker \<Rightarrow> Typechecker" where
  "feed chunks s = fold onData chunks s"

definition rerunCalls :: "Typechecker \<Rightarrow> nat" where
  "rerunCalls s = length (filter (\<lambda>c. c = OnWatcherRerun) (calls s))"

section \<open>Vocabulary of the properties\<close>

text \<open>What \<open>errors.map\<close> builds for one diagnostic, written out.\<close>

definition suiteError :: "string \<Rightarrow> TscErrorInfo \<Rightarrow> TypeCheckError \<times> TscErrorInfo" where
  "suiteError fp info =
     (\<lparr>name = ''TypeCheckError'', message = errMsg info,
       stacks = [\<lparr>stack_file = fp, stack_line = line info, stack_column = column info,
                  stack_method = [], sourcePos = (line info, column info)\<rparr>],
       captured = 0\<rparr>, info)"

definition wellBuilt :: "typeErrorsMap \<Rightarrow> bool" where
  "wellBuilt m = (\<forall>(p, errs) \<in> set m. \<exists>infos. errs = map (suiteError p) infos)"

text \<open>Every object of the store has a finite chain of ancestors: the suites form trees.\<close>

definition acyclic_store :: "store \<Rightarrow> bool" where
  "acyclic_store h = (\<forall>t. \<exists>ps. ancestors h t ps)"

text \<open>
  The synthetic tasks that the diagnostics \<open>errors\<close> of one file, numbered from
  \<open>idx\<close>, contribute to the object \<open>s\<close>: in order, one for each diagnostic whose
  owning suite is \<open>s\<close>.
\<close>

definition newTasks ::
  "(string \<Rightarrow> string \<Rightarrow> nat option) \<Rightarrow> FileInformation \<Rightarrow> string \<Rightarrow> store \<Rightarrow> ref \<Rightarrow> nat
     \<Rightarrow> (TypeCheckError \<times> TscErrorInfo) list \<Rightarrow> TypecheckTask list" where
  "newTasks cim info path h s idx errors =
     map (\<lambda>(i, e). typecheckTask h (file_ref info) s i (fst e))
       (filter (\<lambda>(i, e). owningSuite cim info path (snd e) = s) (enumerate idx errors))"

text \<open>The same over the requested files, in their order.\<close>

definition allNewTasks ::
  "Imports \<Rightarrow> (string \<Rightarrow> FileInformation option) \<Rightarrow> typeErrorsMap \<Rightarrow> store \<Rightarrow> ref
     \<Rightarrow> string list \<Rightarrow> TypecheckTask list" where
  "allNewTasks imp tsts typeErrors h s paths =
     concat (map (\<lambda>path. case tsts path of
                            None \<Rightarrow> []
                          | Some info \<Rightarrow>
                              (case mapGet typeErrors path of
                                 None \<Rightarrow> []
                               | Some errors \<Rightarrow>
                                   newTasks (createIndexMap imp) info path h s 0 errors))
                 paths)"

text \<open>The parsed diagnostics of a pass: the map that \<open>parseTscLikeOutput\<close> returns
  to \<open>prepareResults\<close>.\<close>

definition parsedDiagnostics :: "Imports \<Rightarrow> string \<Rightarrow> Typechecker \<Rightarrow> typeErrorsMap" where
  "parsedDiagnostics imp out s = fst (parseTscLikeOutput imp out (stackTraceLimit s))"

text \<open>The names of the synthetic tasks in the \<open>tasks\<close> array of \<open>s\<close>, in order.\<close>

definition syntheticNames :: "ref \<Rightarrow> store \<Rightarrow> string list" where
  "syntheticNames s h =
     concat (map (\<lambda>t. case t of Typecheck tt \<Rightarrow> [tc_name tt] | Child r \<Rightarrow> []) (tasks (h s)))"

text \<open>The two tests on the buffer are evaluated on concrete buffers only.\<close>

declare passComplete.simps [simp del] includes_str.simps [simp del]

text \<open>No chunk of the sequence completes the pass, the buffer being \<open>buf\<close> before it.\<close>

fun samePass :: "string \<Rightarrow> string list \<Rightarrow> bool" where
  "samePass buf [] = True"
| "samePass buf (c # cs) = (\<not> passComplete (buf @ c) \<and> samePass (buf @ c) cs)"

section \<open>Examples\<close>

text \<open>A three-level example: file \<open>0\<close>, suite \<open>1\<close> inside it, suite \<open>2\<close> inside suite \<open>1\<close>.\<close>

definition emptyTask :: Task where
  "emptyTask = \<lparr>mode = Run, suite = None, result = None, tasks = []\<rparr>"

definition nested :: store where
  "nested = (\<lambda>_. emptyTask)
     (1 := emptyTask\<lparr>suite := Some 0\<rparr>,
      2 := emptyTask\<lparr>mode := Only, suite := Some 1\<rparr>)"

text \<open>The same store with the inner suite skipped.\<close>

definition skipped :: store where
  "skipped = nested(2 := emptyTask\<lparr>mode := Skip, suite := Some 1\<rparr>)"

text \<open>
  A consumer over a decoded list of mappings, for the examples.
  \<open>generatedPositionFor\<close> answers the mapping of the asked source with the greatest
  original (line, column) at or before the asked one, over all lines of that source;
  \<open>originalPositionFor\<close> answers the mapping on the asked generated line with the
  greatest column at or before the asked one.
\<close>

record Mapping =
  generatedLine :: nat
  generatedColumn :: nat
  mapSource :: string
  originalLine :: nat
  originalColumn :: nat

definition atOrBefore :: "nat \<times> nat \<Rightarrow> nat \<times> nat \<Rightarrow> bool" where
  "atOrBefore p q = (fst p < fst q \<or> (fst p = fst q \<and> snd p \<le> snd q))"

definition nearestBefore ::
  "(Mapping \<Rightarrow> nat \<times> nat) \<Rightarrow> nat \<times> nat \<Rightarrow> Mapping list \<Rightarrow> Mapping option" where
  "nearestBefore key needle ms =
     fold (\<lambda>m best. if atOrBefore (key m) needle
                         \<and> (case best of None \<Rightarrow> True | Some b \<Rightarrow> atOrBefore (key b) (key m))
                      then Some m else best) ms None"

definition consumerOf :: "Mapping list \<Rightarrow> SourceMapConsumer" where
  "consumerOf ms =
     \<lparr>generatedPositionFor = (\<lambda>(l, c, src).
        case nearestBefore (\<lambda>m. (originalLine m, originalColumn m)) (l, c)
               (filter (\<lambda>m. mapSource m = src) ms) of
          None \<Rightarrow> \<lparr>pos_line = None, pos_column = None\<rparr>
        | Some m \<Rightarrow> \<lparr>pos_line = Some (generatedLine m), pos_column = Some (generatedColumn m)\<rparr>),
      originalPositionFor = (\<lambda>(l, c).
        case nearestBefore (\<lambda>m. (generatedLine m, generatedColumn m)) (l, c)
               (filter (\<lambda>m. generatedLine m = l) ms) of
          None \<Rightarrow> \<lparr>pos_line = None, pos_column = None\<rparr>
        | Some m \<Rightarrow> \<lparr>pos_line = Some (originalLine m), pos_column = Some (originalColumn m)\<rparr>)\<rparr>"

definition movedConsumer :: SourceMapConsumer where
  "movedConsumer = consumerOf
     [\<lparr>generatedLine = 2, generatedColumn = 0, mapSource = ''/a.ts'',
       originalLine = 2, originalColumn = 0\<rparr>,
      \<lparr>generatedLine = 3, generatedColumn = 5, mapSource = ''/a.ts'',
       originalLine = 2, originalColumn = 3\<rparr>]"

text \<open>A diagnostic at a position; an index map that knows three positions; a file
  with a suite spanning [0,100] and a suite nested in it spanning [10,50].\<close>

definition diagnosticAt :: "nat \<Rightarrow> nat \<Rightarrow> TscErrorInfo" where
  "diagnosticAt l c = \<lparr>filePath = ''a.ts'', errCode = 2322, errMsg = ''msg'', line = l, column = c\<rparr>"

definition exampleIndexMap :: "string \<Rightarrow> string \<Rightarrow> nat option" where
  "exampleIndexMap src key =
     (if key = ''3:5'' then Some 20 else if key = ''7:2'' then Some 70
      else if key = ''9:2'' then Some 200 else None)"

definition exampleInfo :: FileInformation where
  "exampleInfo =
     \<lparr>file_ref = 0, filepath = ''/a.ts'', parsed = [], sourceMap = None,
      definitions = [\<lparr>start = 0, end_offset = 100, task = 1\<rparr>,
                     \<lparr>start = 10, end_offset = 50, task = 2\<rparr>]\<rparr>"

text \<open>The example file with a source map.\<close>

definition mappedInfo :: FileInformation where
  "mappedInfo = exampleInfo\<lparr>sourceMap := Some movedConsumer\<rparr>"

text \<open>Imports for the examples: any output but the empty one holds two diagnostics
  for \<open>a.ts\<close> and one for \<open>b.ts\<close>; only \<open>/a.ts\<close> yields definitions.\<close>

definition exampleImports :: Imports where
  "exampleImports =
     \<lparr>getRawErrsMapFromTsCompile = (\<lambda>out.
        if out = [] then []
        else [(''a.ts'', [diagnosticAt 3 5, diagnosticAt 7 2]), (''b.ts'', [diagnosticAt 1 1])]),
      resolvePath = (\<lambda>p. CHR ''/'' # p),
      createIndexMap = exampleIndexMap,
      collectFileTests = (\<lambda>p h. (if p = ''/a.ts'' then Some exampleInfo else None, h))\<rparr>"

text \<open>An instance for the file \<open>/a.ts\<close> whose cache was dropped by a rerun, and one
  that was also asked for a file that yields no definitions.\<close>

definition exampleChecker :: Typechecker where
  "exampleChecker =
     \<lparr>this_files = [''/a.ts''], tests = None, result_ref = 0,
      snapshots = (\<lambda>_. \<lparr>files = [], sourceErrors = []\<rparr>), allocated = 1,
      objects = nested, stackTraceLimit = 10, watch = True, outputBuf = [],
      rerunTriggered = False, pending = [], calls = []\<rparr>"

definition uncollectedChecker :: Typechecker where
  "uncollectedChecker = exampleChecker\<lparr>this_files := [''/a.ts'', ''/c.ts'']\<rparr>"

text \<open>An instance in watch mode whose published snapshot lists the file \<open>0\<close>.\<close>

definition publishedChecker :: Typechecker where
  "publishedChecker =
     exampleChecker\<lparr>snapshots := (snapshots exampleChecker)(0 := \<lparr>files = [0], sourceErrors = []\<rparr>)\<rparr>"

section \<open>Propagation: helper lemmas\<close>

lemma setFailed_suite [simp]: "suite (setFailed t h x) = suite (h x)"
  by (simp add: setFailed_def)

lemma setFailed_mode [simp]: "mode (setFailed t h x) = mode (h x)"
  by (simp add: setFailed_def)

lemma setFailed_tasks [simp]: "tasks (setFailed t h x) = tasks (h x)"
  by (simp add: setFailed_def)

lemma setFailed_other: "x \<noteq> t \<Longrightarrow> setFailed t h x = h x"
  by (simp add: setFailed_def)

lemma setFailed_result_self:
  "result (setFailed t h t) = Some \<lparr>state = failState (mode (h t)), error = None\<rparr>"
  by (simp add: setFailed_def)

lemma ancestors_cong:
  "(\<And>x. suite (h' x) = suite (h x)) \<Longrightarrow> ancestors h' t ps = ancestors h t ps"
  by (induction ps arbitrary: t) simp_all

lemma fold_setFailed_suite [simp]: "suite (fold setFailed xs h x) = suite (h x)"
  by (induction xs arbitrary: h) simp_all

lemma fold_setFailed_mode [simp]: "mode (fold setFailed xs h x) = mode (h x)"
  by (induction xs arbitrary: h) simp_all

lemma fold_setFailed_tasks [simp]: "tasks (fold setFailed xs h x) = tasks (h x)"
  by (induction xs arbitrary: h) simp_all

lemma fold_setFailed_other: "x \<notin> set xs \<Longrightarrow> fold setFailed xs h x = h x"
  by (induction xs arbitrary: h) (simp_all add: setFailed_other)

lemma fold_setFailed_result:
  "x \<in> set xs \<Longrightarrow>
   result (fold setFailed xs h x) = Some \<lparr>state = failState (mode (h x)), error = None\<rparr>"
proof (induction xs arbitrary: h)
  case Nil
  then show ?case by simp
next
  case (Cons y ys)
  show ?case
  proof (cases "x \<in> set ys")
    case True
    from Cons.IH [OF True, of "setFailed y h"] show ?thesis by simp
  next
    case False
    with Cons.prems have "x = y" by simp
    with False show ?thesis
      by (simp add: fold_setFailed_other setFailed_result_self)
  qed
qed

lemma markFailed_chain:
  "ancestors h t ps \<Longrightarrow> markFailed h t = Some (fold setFailed (t # ps) h)"
proof (induction ps arbitrary: h t)
  case Nil
  then show ?case by (subst markFailed.simps) simp
next
  case (Cons p ps)
  then have "ancestors (setFailed t h) p ps"
    by (simp add: ancestors_cong [of "setFailed t h" h])
  from Cons.IH [OF this] Cons.prems show ?case
    by (subst markFailed.simps) simp
qed

lemma fold_setFailed_idem:
  "fold setFailed xs (fold setFailed xs h) = fold setFailed xs h"
proof
  fix x
  show "fold setFailed xs (fold setFailed xs h) x = fold setFailed xs h x"
  proof (cases "x \<in> set xs")
    case True
    then show ?thesis
      by (intro Task.equality) (simp_all add: fold_setFailed_result)
  next
    case False
    then show ?thesis by (simp add: fold_setFailed_other)
  qed
qed

section \<open>Propagation: idempotence and termination\<close>

text \<open>
  C6. On a finite single-parent ancestor chain \<open>markFailed\<close> returns. Invoked again on
  the store it returned, it returns that store unchanged: every object of the chain
  keeps the result state it was given (\<open>Fail\<close> when its mode is \<open>Run\<close> or
  \<open>Only\<close>), and no \<open>tasks\<close> array of any object has gained or lost an entry.
\<close>

theorem markFailed_idempotent_terminating:
  assumes "ancestors h t ps"
  shows "\<exists>h1. markFailed h t = Some h1 \<and> markFailed h1 t = Some h1
           \<and> (\<forall>x. tasks (h1 x) = tasks (h x))
           \<and> (\<forall>x \<in> set (t # ps). mode (h x) \<in> {Run, Only} \<longrightarrow>
                 result (h1 x) = Some \<lparr>state = Fail, error = None\<rparr>)
           \<and> (\<forall>x. x \<notin> set (t # ps) \<longrightarrow> h1 x = h x)"
proof -
  let ?h1 = "fold setFailed (t # ps) h"
  have first: "markFailed h t = Some ?h1"
    using assms by (rule markFailed_chain)
  have "ancestors ?h1 t ps"
    using assms ancestors_cong [of ?h1 h t ps] by simp
  then have "markFailed ?h1 t = Some (fold setFailed (t # ps) ?h1)"
    by (rule markFailed_chain)
  then have second: "markFailed ?h1 t = Some ?h1"
    by (simp only: fold_setFailed_idem)
  have unchanged: "\<forall>x. tasks (?h1 x) = tasks (h x)"
    by simp
  have failed: "\<forall>x \<in> set (t # ps). mode (h x) \<in> {Run, Only} \<longrightarrow>
      result (?h1 x) = Some \<lparr>state = Fail, error = None\<rparr>"
  proof (intro ballI impI)
    fix x assume "x \<in> set (t # ps)" and "mode (h x) \<in> {Run, Only}"
    then show "result (?h1 x) = Some \<lparr>state = Fail, error = None\<rparr>"
      using fold_setFailed_result [of x "t # ps" h] by (auto simp: failState_def)
  qed
  have frame: "\<forall>x. x \<notin> set (t # ps) \<longrightarrow> ?h1 x = h x"
    using fold_setFailed_other [of _ "t # ps" h] by blast
  from first second unchanged failed frame show ?thesis by blast
qed

theorem markFailed_idempotent_terminating_witness:
  "ancestors nested 2 [1, 0] \<and>
   (\<exists>h1. markFailed nested 2 = Some h1 \<and> markFailed h1 2 = Some h1
      \<and> tasks (h1 1) = tasks (nested 1)
      \<and> result (h1 0) = Some \<lparr>state = Fail, error = None\<rparr>
      \<and> h1 3 = nested 3)"
proof -
  have chain: "ancestors nested 2 [1, 0]"
    by (simp add: nested_def emptyTask_def)
  have run: "mode (nested 0) \<in> {Run, Only}"
    by (simp add: nested_def emptyTask_def)
  from markFailed_idempotent_terminating [OF chain] run show ?thesis
    using chain by auto
qed

section \<open>Parsed diagnostics: the stack-trace limit and the explicit frame\<close>

lemma makeSuiteError_eq: "makeSuiteError fp info g = (suiteError fp info, g)"
  by (simp add: makeSuiteError_def suiteError_def newTypeCheckError_def)

lemma makeSuiteErrors_eq: "makeSuiteErrors fp infos g = (map (suiteError fp) infos, g)"
  by (induction infos arbitrary: g) (simp_all add: makeSuiteError_eq)

lemma set_mapSet: "set (mapSet m k v) \<subseteq> insert (k, v) (set m)"
  by (induction m k v rule: mapSet.induct) (auto split: if_splits)

lemma wellBuilt_mapSet:
  "wellBuilt m \<Longrightarrow> wellBuilt (mapSet m p (map (suiteError p) infos))"
  unfolding wellBuilt_def using set_mapSet [of m p "map (suiteError p) infos"] by blast

lemma eachRawError_eq:
  "wellBuilt acc \<Longrightarrow>
   snd (eachRawError r raw acc g) = g \<and> wellBuilt (fst (eachRawError r raw acc g))"
proof (induction raw arbitrary: acc)
  case Nil
  then show ?case by simp
next
  case (Cons a raw)
  obtain path errors where a: "a = (path, errors)" by (cases a)
  from Cons.prems have "wellBuilt (mapSet acc (r path) (map (suiteError (r path)) errors))"
    by (rule wellBuilt_mapSet)
  from Cons.IH [OF this] show ?case
    by (simp add: a makeSuiteErrors_eq Let_def)
qed

lemma parseTscLikeOutput_limit: "snd (parseTscLikeOutput imp out g) = g"
  using eachRawError_eq [of "[]"] by (simp add: parseTscLikeOutput_def wellBuilt_def)

lemma parseTscLikeOutput_wellBuilt: "wellBuilt (fst (parseTscLikeOutput imp out g))"
  using eachRawError_eq [of "[]"] by (simp add: parseTscLikeOutput_def wellBuilt_def)

text \<open>
  C10. Building the error of one diagnostic leaves \<open>Error.stackTraceLimit\<close> at the
  value it had, and so does \<open>parseTscLikeOutput\<close> as a whole. Every error it returns
  was constructed under a limit of zero frames and carries exactly one explicit frame:
  the resolved path it is filed under, with the line and column of its diagnostic.
\<close>

theorem stackTraceLimit_restored:
  "snd (makeSuiteError fp info0 g) = g
   \<and> snd (parseTscLikeOutput imp out g) = g
   \<and> (\<forall>(p, errs) \<in> set (fst (parseTscLikeOutput imp out g)). \<forall>(e, info) \<in> set errs.
         captured e = 0 \<and>
         stacks e = [\<lparr>stack_file = p, stack_line = line info, stack_column = column info,
                      stack_method = [], sourcePos = (line info, column info)\<rparr>])"
proof -
  have "\<forall>(p, errs) \<in> set (fst (parseTscLikeOutput imp out g)). \<forall>(e, info) \<in> set errs.
         captured e = 0 \<and>
         stacks e = [\<lparr>stack_file = p, stack_line = line info, stack_column = column info,
                      stack_method = [], sourcePos = (line info, column info)\<rparr>]"
    using parseTscLikeOutput_wellBuilt [of imp out g]
    unfolding wellBuilt_def by (fastforce simp: suiteError_def)
  then show ?thesis
    by (simp add: makeSuiteError_eq parseTscLikeOutput_limit)
qed

lemma example_parse:
  "fst (parseTscLikeOutput exampleImports ''x'' 10) =
     [(''/a.ts'', [suiteError ''/a.ts'' (diagnosticAt 3 5), suiteError ''/a.ts'' (diagnosticAt 7 2)]),
      (''/b.ts'', [suiteError ''/b.ts'' (diagnosticAt 1 1)])]"
  by (simp add: parseTscLikeOutput_def exampleImports_def makeSuiteErrors_eq Let_def)

theorem stackTraceLimit_restored_witness:
  "snd (parseTscLikeOutput exampleImports ''x'' 10) = 10
   \<and> (''/b.ts'', [suiteError ''/b.ts'' (diagnosticAt 1 1)])
        \<in> set (fst (parseTscLikeOutput exampleImports ''x'' 10))
   \<and> captured (fst (suiteError ''/b.ts'' (diagnosticAt 1 1))) = 0
   \<and> stacks (fst (suiteError ''/b.ts'' (diagnosticAt 1 1))) =
        [\<lparr>stack_file = ''/b.ts'', stack_line = 1, stack_column = 1,
          stack_method = [], sourcePos = (1, 1)\<rparr>]"
proof -
  have mem: "(''/b.ts'', [suiteError ''/b.ts'' (diagnosticAt 1 1)])
        \<in> set (fst (parseTscLikeOutput exampleImports ''x'' 10))"
    by (simp add: example_parse)
  have el: "suiteError ''/b.ts'' (diagnosticAt 1 1) \<in> set [suiteError ''/b.ts'' (diagnosticAt 1 1)]"
    by simp
  from stackTraceLimit_restored [of "''/b.ts''" "diagnosticAt 1 1" 10 exampleImports "''x''"]
  have lim: "snd (parseTscLikeOutput exampleImports ''x'' 10) = 10"
    and all: "\<forall>(p, errs) \<in> set (fst (parseTscLikeOutput exampleImports ''x'' 10)).
       \<forall>(e, info) \<in> set errs. captured e = 0 \<and>
         stacks e = [\<lparr>stack_file = p, stack_line = line info, stack_column = column info,
                      stack_method = [], sourcePos = (line info, column info)\<rparr>]"
    by blast+
  from all mem el
  have "captured (fst (suiteError ''/b.ts'' (diagnosticAt 1 1))) = 0 \<and>
        stacks (fst (suiteError ''/b.ts'' (diagnosticAt 1 1))) =
          [\<lparr>stack_file = ''/b.ts'', stack_line = line (snd (suiteError ''/b.ts'' (diagnosticAt 1 1))),
            stack_column = column (snd (suiteError ''/b.ts'' (diagnosticAt 1 1))),
            stack_method = [], sourcePos = (line (snd (suiteError ''/b.ts'' (diagnosticAt 1 1))),
               column (snd (suiteError ''/b.ts'' (diagnosticAt 1 1))))\<rparr>]"
    by (cases "suiteError ''/b.ts'' (diagnosticAt 1 1)") fastforce
  with lim mem show ?thesis
    by (simp add: suiteError_def diagnosticAt_def)
qed

section \<open>Definition lookup\<close>

lemma sortedDefinitions_sorted: "sorted (map (\<lambda>d. - int (start d)) (sortedDefinitions defs))"
  by (simp add: sortedDefinitions_def)

lemma sortedDefinitions_set: "set (sortedDefinitions defs) = set defs"
  by (simp add: sortedDefinitions_def)

lemma find_sorted_max:
  assumes "List.find P xs = Some d" and "sorted (map f xs)" and "d' \<in> set xs" and "P d'"
  shows "f d \<le> f d'"
proof -
  from assms(1) obtain i where i: "i < length xs" "d = xs ! i" "\<forall>j<i. \<not> P (xs ! j)"
    by (auto simp: find_Some_iff)
  from assms(3) obtain j where j: "j < length xs" "d' = xs ! j"
    by (auto simp: in_set_conv_nth)
  with i assms(4) have "i \<le> j" by (meson not_le)
  with assms(2) i j show ?thesis
    using sorted_nth_mono [of "map f xs" i j] by simp
qed

lemma find_Some_mem: "List.find P xs = Some d \<Longrightarrow> d \<in> set xs \<and> P d"
  by (auto simp: find_Some_iff)

lemma findDefinition_Some:
  assumes "findDefinition defs (Some i) = Some d"
  shows "d \<in> set defs \<and> contains i d
         \<and> (\<forall>d' \<in> set defs. contains i d' \<longrightarrow> start d' \<le> start d)"
proof -
  from assms have f: "List.find (contains i) (sortedDefinitions defs) = Some d"
    by (simp add: findDefinition_def)
  from find_Some_mem [OF f] have "d \<in> set defs" "contains i d"
    by (simp_all add: sortedDefinitions_set)
  moreover have "\<forall>d' \<in> set defs. contains i d' \<longrightarrow> start d' \<le> start d"
  proof (intro ballI impI)
    fix d' assume "d' \<in> set defs" "contains i d'"
    with find_sorted_max [OF f sortedDefinitions_sorted, of d'] show "start d' \<le> start d"
      by (simp add: sortedDefinitions_set)
  qed
  ultimately show ?thesis by blast
qed

lemma findDefinition_None:
  "(findDefinition defs (Some i) = None) = (\<forall>d \<in> set defs. \<not> contains i d)"
  by (auto simp: findDefinition_def find_None_iff sortedDefinitions_set)

lemma owningSuite_eq:
  "owningSuite cim info path e =
     (case findDefinition (definitions info)
             (cim (parsed info) (positionKey (originalPos (sourceMap info) path e))) of
        Some d \<Rightarrow> task d
      | None \<Rightarrow> file_ref info)"
  by (simp add: owningSuite_def Let_def)

text \<open>
  C4. Let \<open>index\<close> be what the index map gives for the diagnostic's line:column key.
  If it is an offset that lies inside some span of the file, the owner of the
  diagnostic is the task of the first span containing the offset in the list of all the
  file's spans ordered by descending start; that span has the greatest start among
  the spans containing the offset. For the spans [0,100] and [10,50] and offset 20 it
  is [10,50]. If no span contains the offset, or the key is absent from the index map,
  the owner is the file.
\<close>

theorem owningSuite_innermost:
  "(\<forall>i. cim (parsed info) (positionKey (originalPos (sourceMap info) path e)) = Some i \<longrightarrow>
      (\<exists>d \<in> set (definitions info). contains i d) \<longrightarrow>
      (\<exists>d. List.find (contains i) (sortedDefinitions (definitions info)) = Some d
           \<and> owningSuite cim info path e = task d
           \<and> d \<in> set (definitions info) \<and> contains i d
           \<and> (\<forall>d' \<in> set (definitions info). contains i d' \<longrightarrow> start d' \<le> start d)))
   \<and> sorted_wrt (\<lambda>a b. start a \<ge> start b) (sortedDefinitions (definitions info))
   \<and> set (sortedDefinitions (definitions info)) = set (definitions info)
   \<and> length (sortedDefinitions (definitions info)) = length (definitions info)
   \<and> findDefinition [\<lparr>start = 0, end_offset = 100, task = a\<rparr>,
                      \<lparr>start = 10, end_offset = 50, task = b\<rparr>] (Some 20)
        = Some \<lparr>start = 10, end_offset = 50, task = b\<rparr>
   \<and> (\<forall>i. cim (parsed info) (positionKey (originalPos (sourceMap info) path e)) = Some i \<longrightarrow>
         (\<forall>d \<in> set (definitions info). \<not> contains i d) \<longrightarrow>
         owningSuite cim info path e = file_ref info)
   \<and> (cim (parsed info) (positionKey (originalPos (sourceMap info) path e)) = None \<longrightarrow>
         owningSuite cim info path e = file_ref info)"
proof (intro conjI allI impI)
  fix i
  assume idx: "cim (parsed info) (positionKey (originalPos (sourceMap info) path e)) = Some i"
    and ex: "\<exists>d \<in> set (definitions info). contains i d"
  from ex have "findDefinition (definitions info) (Some i) \<noteq> None"
    by (simp add: findDefinition_None)
  then obtain d where d: "findDefinition (definitions info) (Some i) = Some d"
    by blast
  then have "List.find (contains i) (sortedDefinitions (definitions info)) = Some d"
    by (simp add: findDefinition_def)
  moreover from d idx have "owningSuite cim info path e = task d"
    by (simp add: owningSuite_eq)
  ultimately show "\<exists>d. List.find (contains i) (sortedDefinitions (definitions info)) = Some d
           \<and> owningSuite cim info path e = task d
           \<and> d \<in> set (definitions info) \<and> contains i d
           \<and> (\<forall>d' \<in> set (definitions info). contains i d' \<longrightarrow> start d' \<le> start d)"
    using findDefinition_Some [OF d] by blast
next
  show "sorted_wrt (\<lambda>a b. start a \<ge> start b) (sortedDefinitions (definitions info))"
    using sortedDefinitions_sorted [of "definitions info"] by (simp add: sorted_map)
next
  show "set (sortedDefinitions (definitions info)) = set (definitions info)"
    by (rule sortedDefinitions_set)
next
  show "length (sortedDefinitions (definitions info)) = length (definitions info)"
    by (simp add: sortedDefinitions_def)
next
  show "findDefinition [\<lparr>start = 0, end_offset = 100, task = a\<rparr>,
                      \<lparr>start = 10, end_offset = 50, task = b\<rparr>] (Some 20)
        = Some \<lparr>start = 10, end_offset = 50, task = b\<rparr>"
    by (simp add: findDefinition_def sortedDefinitions_def contains_def)
next
  fix i
  assume "cim (parsed info) (positionKey (originalPos (sourceMap info) path e)) = Some i"
    and "\<forall>d \<in> set (definitions info). \<not> contains i d"
  then show "owningSuite cim info path e = file_ref info"
    using findDefinition_None [of "definitions info" i] by (simp add: owningSuite_eq)
next
  assume "cim (parsed info) (positionKey (originalPos (sourceMap info) path e)) = None"
  then show "owningSuite cim info path e = file_ref info"
    by (simp add: owningSuite_eq findDefinition_def)
qed

lemma key_3_5: "positionKey \<lparr>pos_line = Some 3, pos_column = Some 5\<rparr> = ''3:5''"
  by code_simp

lemma key_7_2: "positionKey \<lparr>pos_line = Some 7, pos_column = Some 2\<rparr> = ''7:2''"
  by code_simp

lemma key_9_2: "positionKey \<lparr>pos_line = Some 9, pos_column = Some 2\<rparr> = ''9:2''"
  by code_simp

lemma key_4_4: "positionKey \<lparr>pos_line = Some 4, pos_column = Some 4\<rparr> = ''4:4''"
  by code_simp

lemma example_index:
  "exampleIndexMap (parsed exampleInfo)
     (positionKey (originalPos (sourceMap exampleInfo) ''/a.ts'' (diagnosticAt 3 5))) = Some 20"
  "exampleIndexMap (parsed exampleInfo)
     (positionKey (originalPos (sourceMap exampleInfo) ''/a.ts'' (diagnosticAt 7 2))) = Some 70"
  "exampleIndexMap (parsed exampleInfo)
     (positionKey (originalPos (sourceMap exampleInfo) ''/a.ts'' (diagnosticAt 9 2))) = Some 200"
  "exampleIndexMap (parsed exampleInfo)
     (positionKey (originalPos (sourceMap exampleInfo) ''/a.ts'' (diagnosticAt 4 4))) = None"
  by (simp_all add: exampleIndexMap_def exampleInfo_def originalPos_def diagnosticAt_def
        key_3_5 key_7_2 key_9_2 key_4_4)

theorem owningSuite_innermost_witness:
  "exampleIndexMap (parsed exampleInfo)
     (positionKey (originalPos (sourceMap exampleInfo) ''/a.ts'' (diagnosticAt 3 5))) = Some 20
   \<and> (\<exists>d \<in> set (definitions exampleInfo). contains 20 d)
   \<and> owningSuite exampleIndexMap exampleInfo ''/a.ts'' (diagnosticAt 3 5) = 2
   \<and> exampleIndexMap (parsed exampleInfo)
     (positionKey (originalPos (sourceMap exampleInfo) ''/a.ts'' (diagnosticAt 9 2))) = Some 200
   \<and> \<not> (\<exists>d \<in> set (definitions exampleInfo). contains 200 d)
   \<and> owningSuite exampleIndexMap exampleInfo ''/a.ts'' (diagnosticAt 9 2) = 0
   \<and> exampleIndexMap (parsed exampleInfo)
     (positionKey (originalPos (sourceMap exampleInfo) ''/a.ts'' (diagnosticAt 4 4))) = None
   \<and> owningSuite exampleIndexMap exampleInfo ''/a.ts'' (diagnosticAt 4 4) = 0"
proof -
  have inside: "\<exists>d \<in> set (definitions exampleInfo). contains 20 d"
    by (simp add: exampleInfo_def contains_def)
  have outside: "\<forall>d \<in> set (definitions exampleInfo). \<not> contains 200 d"
    by (simp add: exampleInfo_def contains_def)
  from owningSuite_innermost [of exampleIndexMap exampleInfo "''/a.ts''" "diagnosticAt 3 5"]
    example_index(1) inside
  obtain d where "List.find (contains 20) (sortedDefinitions (definitions exampleInfo)) = Some d"
    and "owningSuite exampleIndexMap exampleInfo ''/a.ts'' (diagnosticAt 3 5) = task d"
    by blast
  moreover have "List.find (contains 20) (sortedDefinitions (definitions exampleInfo))
      = Some \<lparr>start = 10, end_offset = 50, task = 2\<rparr>"
    by (simp add: exampleInfo_def sortedDefinitions_def contains_def)
  ultimately have first: "owningSuite exampleIndexMap exampleInfo ''/a.ts'' (diagnosticAt 3 5) = 2"
    by auto
  from owningSuite_innermost [of exampleIndexMap exampleInfo "''/a.ts''" "diagnosticAt 9 2"]
    example_index(3) outside
  have second: "owningSuite exampleIndexMap exampleInfo ''/a.ts'' (diagnosticAt 9 2) = file_ref exampleInfo"
    by blast
  from owningSuite_innermost [of exampleIndexMap exampleInfo "''/a.ts''" "diagnosticAt 4 4"]
    example_index(4)
  have third: "owningSuite exampleIndexMap exampleInfo ''/a.ts'' (diagnosticAt 4 4) = file_ref exampleInfo"
    by blast
  from first second third inside outside example_index show ?thesis
    by (simp add: exampleInfo_def)
qed

section \<open>Attaching the diagnostics of one file\<close>

lemma markFailed_returns_chain:
  "markFailed h t = Some h1 \<Longrightarrow> \<exists>ps. ancestors h t ps"
proof (induction rule: markFailed.raw_induct [rotated 1, consumes 1, case_names step])
  case (step f h t h1)
  show ?case
  proof (cases "suite (h t)")
    case None
    then have "ancestors h t []" by simp
    then show ?thesis ..
  next
    case (Some p)
    with step.hyps have "f (setFailed t h) p = Some h1" by simp
    from step.IH [OF this] obtain ps where "ancestors (setFailed t h) p ps" ..
    then have "ancestors h p ps"
      by (simp add: ancestors_cong [of "setFailed t h" h])
    with Some have "ancestors h t (p # ps)" by simp
    then show ?thesis ..
  qed
qed

lemma markFailed_frame:
  assumes "markFailed h t = Some h1"
  shows "mode (h1 x) = mode (h x)" and "suite (h1 x) = suite (h x)" and "tasks (h1 x) = tasks (h x)"
proof -
  from markFailed_returns_chain [OF assms] obtain ps where "ancestors h t ps" ..
  with assms have "h1 = fold setFailed (t # ps) h"
    by (simp add: markFailed_chain)
  then show "mode (h1 x) = mode (h x)" and "suite (h1 x) = suite (h x)"
    and "tasks (h1 x) = tasks (h x)"
    by simp_all
qed

lemma pushTask_fields [simp]:
  "mode (pushTask s t h x) = mode (h x)"
  "suite (pushTask s t h x) = suite (h x)"
  "tasks (pushTask s t h x) = tasks (h x) @ (if x = s then [Typecheck t] else [])"
  by (simp_all add: pushTask_def)

lemma attachError_frame:
  assumes "attachError cim info path idx e h = Some h'"
  shows "mode (h' x) = mode (h x)" and "suite (h' x) = suite (h x)"
    and "tasks (h' x) = tasks (h x) @
           (if x = owningSuite cim info path (snd e)
            then [Typecheck (typecheckTask h (file_ref info) x idx (fst e))] else [])"
proof -
  let ?s = "owningSuite cim info path (snd e)"
  let ?t = "typecheckTask h (file_ref info) ?s idx (fst e)"
  from assms obtain h1 where
    h1: "(if state (tc_result ?t) = Fail then markFailed h ?s else Some h) = Some h1"
    and h': "h' = pushTask ?s ?t h1"
    by (auto simp: attachError_def Let_def split: option.splits)
  have f: "mode (h1 x) = mode (h x) \<and> suite (h1 x) = suite (h x) \<and> tasks (h1 x) = tasks (h x)"
  proof (cases "state (tc_result ?t) = Fail")
    case True
    with h1 have "markFailed h ?s = Some h1" by simp
    from markFailed_frame [OF this] show ?thesis by simp
  next
    case False
    with h1 show ?thesis by simp
  qed
  from f h' show "mode (h' x) = mode (h x)" and "suite (h' x) = suite (h x)"
    and "tasks (h' x) = tasks (h x) @
           (if x = owningSuite cim info path (snd e)
            then [Typecheck (typecheckTask h (file_ref info) x idx (fst e))] else [])"
    by simp_all
qed

lemma typecheckTask_cong:
  "mode (h' s) = mode (h s) \<Longrightarrow> typecheckTask h' f s i e = typecheckTask h f s i e"
  by (simp add: typecheckTask_def)

lemma newTasks_cong:
  "mode (h' s) = mode (h s) \<Longrightarrow> newTasks cim info path h' s idx es = newTasks cim info path h s idx es"
  by (simp add: newTasks_def typecheckTask_def)

lemma newTasks_Nil [simp]: "newTasks cim info path h s idx [] = []"
  by (simp add: newTasks_def)

lemma newTasks_Cons:
  "newTasks cim info path h s idx (e # es) =
     (if owningSuite cim info path (snd e) = s
      then [typecheckTask h (file_ref info) s idx (fst e)] else [])
     @ newTasks cim info path h s (Suc idx) es"
  by (simp add: newTasks_def)

lemma attachErrors_frame:
  "attachErrors cim info path idx es h = Some h' \<Longrightarrow>
     mode (h' x) = mode (h x) \<and> suite (h' x) = suite (h x)
     \<and> tasks (h' x) = tasks (h x) @ map Typecheck (newTasks cim info path h x idx es)"
proof (induction es arbitrary: idx h)
  case Nil
  then show ?case by simp
next
  case (Cons e es)
  from Cons.prems obtain h1 where
    one: "attachError cim info path idx e h = Some h1"
    and rest: "attachErrors cim info path (Suc idx) es h1 = Some h'"
    by (auto split: option.splits)
  have m: "mode (h1 x) = mode (h x)"
    by (rule attachError_frame(1) [OF one])
  have n: "newTasks cim info path h1 x (Suc idx) es = newTasks cim info path h x (Suc idx) es"
    using m by (rule newTasks_cong)
  have s: "suite (h1 x) = suite (h x)"
    by (rule attachError_frame(2) [OF one])
  have t: "tasks (h1 x) = tasks (h x) @
           (if x = owningSuite cim info path (snd e)
            then [Typecheck (typecheckTask h (file_ref info) x idx (fst e))] else [])"
    by (rule attachError_frame(3) [OF one])
  from Cons.IH [OF rest, of ] have
    "mode (h' x) = mode (h1 x)" "suite (h' x) = suite (h1 x)"
    "tasks (h' x) = tasks (h1 x) @ map Typecheck (newTasks cim info path h1 x (Suc idx) es)"
    by blast+
  then show ?case
    unfolding n m s t newTasks_Cons by auto
qed

lemma acyclic_store_cong:
  "(\<And>x. suite (h' x) = suite (h x)) \<Longrightarrow> acyclic_store h' = acyclic_store h"
  by (simp add: acyclic_store_def ancestors_cong [of h' h])

lemma attachError_returns:
  assumes "acyclic_store h"
  shows "\<exists>h'. attachError cim info path idx e h = Some h'"
proof -
  let ?s = "owningSuite cim info path (snd e)"
  from assms obtain ps where "ancestors h ?s ps"
    unfolding acyclic_store_def by blast
  then have "markFailed h ?s = Some (fold setFailed (?s # ps) h)"
    by (rule markFailed_chain)
  then show ?thesis
    by (simp add: attachError_def Let_def)
qed

lemma attachErrors_returns:
  "acyclic_store h \<Longrightarrow> \<exists>h'. attachErrors cim info path idx es h = Some h'"
proof (induction es arbitrary: idx h)
  case Nil
  then show ?case by simp
next
  case (Cons e es)
  from attachError_returns [OF Cons.prems] obtain h1 where
    one: "attachError cim info path idx e h = Some h1" ..
  have "acyclic_store h1 = acyclic_store h"
    by (rule acyclic_store_cong) (rule attachError_frame(2) [OF one])
  with Cons.prems have "acyclic_store h1" by simp
  from Cons.IH [OF this] one show ?case by simp
qed

section \<open>The synthetic task of one diagnostic\<close>

text \<open>
  C7. The body of the loop, run for one diagnostic on a store where the owning suite has
  a finite chain of ancestors if it is running, appends one synthetic task to the owning
  suite. If the suite's mode is \<open>Run\<close> or \<open>Only\<close>, the task's result state is
  \<open>Fail\<close> and its result carries the diagnostic's error. Otherwise the task's mode and
  result state are the suite's mode and its result carries no error.
\<close>

theorem typecheckTask_state:
  assumes "mode (h (owningSuite cim info path (snd e))) \<in> {Run, Only} \<longrightarrow>
             (\<exists>ps. ancestors h (owningSuite cim info path (snd e)) ps)"
  shows "\<exists>h' t. attachError cim info path idx e h = Some h'
           \<and> tasks (h' (owningSuite cim info path (snd e)))
               = tasks (h (owningSuite cim info path (snd e))) @ [Typecheck t]
           \<and> tc_suite t = owningSuite cim info path (snd e)
           \<and> tc_mode t = mode (h (owningSuite cim info path (snd e)))
           \<and> (mode (h (owningSuite cim info path (snd e))) \<in> {Run, Only} \<longrightarrow>
                 state (tc_result t) = Fail \<and> error (tc_result t) = Some (fst e))
           \<and> (mode (h (owningSuite cim info path (snd e))) \<notin> {Run, Only} \<longrightarrow>
                 state (tc_result t) = Mode (mode (h (owningSuite cim info path (snd e))))
                 \<and> error (tc_result t) = None)"
proof -
  let ?s = "owningSuite cim info path (snd e)"
  let ?t = "typecheckTask h (file_ref info) ?s idx (fst e)"
  have ret: "\<exists>h'. attachError cim info path idx e h = Some h'"
  proof (cases "mode (h ?s) \<in> {Run, Only}")
    case True
    with assms obtain ps where "ancestors h ?s ps" by blast
    then have "markFailed h ?s = Some (fold setFailed (?s # ps) h)"
      by (rule markFailed_chain)
    then show ?thesis
      by (simp add: attachError_def Let_def)
  next
    case False
    then have "state (tc_result ?t) \<noteq> Fail"
      by (simp add: typecheckTask_def failState_def Let_def)
    then show ?thesis
      by (simp add: attachError_def Let_def)
  qed
  then obtain h' where h': "attachError cim info path idx e h = Some h'" ..
  have "tasks (h' ?s) = tasks (h ?s) @ [Typecheck ?t]"
    using attachError_frame(3) [OF h', of ?s] by simp
  moreover have "tc_suite ?t = ?s" and "tc_mode ?t = mode (h ?s)"
    by (simp_all add: typecheckTask_def Let_def)
  moreover have "mode (h ?s) \<in> {Run, Only} \<longrightarrow>
      state (tc_result ?t) = Fail \<and> error (tc_result ?t) = Some (fst e)"
    by (auto simp: typecheckTask_def failState_def Let_def)
  moreover have "mode (h ?s) \<notin> {Run, Only} \<longrightarrow>
      state (tc_result ?t) = Mode (mode (h ?s)) \<and> error (tc_result ?t) = None"
    by (simp add: typecheckTask_def failState_def Let_def)
  ultimately show ?thesis using h' by blast
qed

lemma exampleInfo_fields:
  "file_ref exampleInfo = 0"
  "definitions exampleInfo = [\<lparr>start = 0, end_offset = 100, task = 1\<rparr>,
                              \<lparr>start = 10, end_offset = 50, task = 2\<rparr>]"
  by (simp_all add: exampleInfo_def)

lemma example_owner:
  "owningSuite exampleIndexMap exampleInfo ''/a.ts'' (diagnosticAt 3 5) = 2"
  "owningSuite exampleIndexMap exampleInfo ''/a.ts'' (diagnosticAt 7 2) = 1"
  by (simp_all add: owningSuite_eq example_index findDefinition_def sortedDefinitions_def
        contains_def exampleInfo_fields)

theorem typecheckTask_state_witness:
  "(\<exists>h' t. attachError exampleIndexMap exampleInfo ''/a.ts'' 0
              (suiteError ''/a.ts'' (diagnosticAt 3 5)) nested = Some h'
      \<and> tasks (h' 2) = tasks (nested 2) @ [Typecheck t]
      \<and> state (tc_result t) = Fail
      \<and> error (tc_result t) = Some (fst (suiteError ''/a.ts'' (diagnosticAt 3 5))))
   \<and> (\<exists>h' t. attachError exampleIndexMap exampleInfo ''/a.ts'' 0
              (suiteError ''/a.ts'' (diagnosticAt 3 5)) skipped = Some h'
      \<and> tasks (h' 2) = tasks (skipped 2) @ [Typecheck t]
      \<and> tc_mode t = Skip \<and> state (tc_result t) = Mode Skip \<and> error (tc_result t) = None)"
proof -
  let ?e = "suiteError ''/a.ts'' (diagnosticAt 3 5)"
  have own: "owningSuite exampleIndexMap exampleInfo ''/a.ts'' (snd ?e) = 2"
    by (simp add: suiteError_def example_owner)
  have running: "mode (nested 2) \<in> {Run, Only}"
    by (simp add: nested_def emptyTask_def)
  have "ancestors nested 2 [1, 0]"
    by (simp add: nested_def emptyTask_def)
  then have chain: "\<exists>ps. ancestors nested 2 ps" ..
  have skip: "mode (skipped 2) = Skip"
    by (simp add: skipped_def emptyTask_def)
  have a: "mode (nested (owningSuite exampleIndexMap exampleInfo ''/a.ts'' (snd ?e))) \<in> {Run, Only} \<longrightarrow>
             (\<exists>ps. ancestors nested (owningSuite exampleIndexMap exampleInfo ''/a.ts'' (snd ?e)) ps)"
    using chain by (simp add: own)
  have b: "mode (skipped (owningSuite exampleIndexMap exampleInfo ''/a.ts'' (snd ?e))) \<in> {Run, Only} \<longrightarrow>
             (\<exists>ps. ancestors skipped (owningSuite exampleIndexMap exampleInfo ''/a.ts'' (snd ?e)) ps)"
    by (simp add: own skip)
  from typecheckTask_state [OF a, of 0] running
  have first: "\<exists>h' t. attachError exampleIndexMap exampleInfo ''/a.ts'' 0 ?e nested = Some h'
      \<and> tasks (h' 2) = tasks (nested 2) @ [Typecheck t]
      \<and> state (tc_result t) = Fail \<and> error (tc_result t) = Some (fst ?e)"
    unfolding own by blast
  from typecheckTask_state [OF b, of 0] skip
  have second: "\<exists>h' t. attachError exampleIndexMap exampleInfo ''/a.ts'' 0 ?e skipped = Some h'
      \<and> tasks (h' 2) = tasks (skipped 2) @ [Typecheck t]
      \<and> tc_mode t = Skip \<and> state (tc_result t) = Mode Skip \<and> error (tc_result t) = None"
    unfolding own by auto
  from first second show ?thesis by blast
qed

section \<open>The position used for the lookup\<close>

text \<open>
  C1, as the code has it. For a file with a source map, the position whose line:column
  key is looked up is what the map's consumer answers from \<open>generatedPositionFor\<close>
  for the diagnostic's reported line and column with the file's path as source: the
  reported position is taken as an original position and translated to generated
  coordinates. The owner of the diagnostic is found from that position.
\<close>

theorem originalPos_generatedPositionFor:
  assumes "sourceMap info = Some c"
  shows "originalPos (sourceMap info) path e = generatedPositionFor c (line e, column e, path)
         \<and> owningSuite cim info path e =
             (case findDefinition (definitions info)
                     (cim (parsed info)
                        (positionKey (generatedPositionFor c (line e, column e, path)))) of
                Some d \<Rightarrow> task d
              | None \<Rightarrow> file_ref info)"
  using assms by (simp add: owningSuite_eq originalPos_def)

lemma moved_generated:
  "generatedPositionFor movedConsumer (2, 3, ''/a.ts'') = \<lparr>pos_line = Some 3, pos_column = Some 5\<rparr>"
  by (simp add: movedConsumer_def consumerOf_def nearestBefore_def atOrBefore_def)

lemma moved_original:
  "originalPositionFor movedConsumer (2, 3) = \<lparr>pos_line = Some 2, pos_column = Some 0\<rparr>"
  by (simp add: movedConsumer_def consumerOf_def nearestBefore_def atOrBefore_def)

lemma mappedInfo_fields:
  "sourceMap mappedInfo = Some movedConsumer"
  "file_ref mappedInfo = 0"
  "parsed mappedInfo = []"
  "definitions mappedInfo = [\<lparr>start = 0, end_offset = 100, task = 1\<rparr>,
                             \<lparr>start = 10, end_offset = 50, task = 2\<rparr>]"
  by (simp_all add: mappedInfo_def exampleInfo_def)

theorem originalPos_generatedPositionFor_witness:
  "sourceMap mappedInfo = Some movedConsumer
   \<and> originalPos (sourceMap mappedInfo) ''/a.ts'' (diagnosticAt 2 3)
       = \<lparr>pos_line = Some 3, pos_column = Some 5\<rparr>
   \<and> owningSuite exampleIndexMap mappedInfo ''/a.ts'' (diagnosticAt 2 3) = 2"
proof -
  have l: "line (diagnosticAt 2 3) = 2" "column (diagnosticAt 2 3) = 3"
    by (simp_all add: diagnosticAt_def)
  have idx: "exampleIndexMap [] ''3:5'' = Some 20"
    by (simp add: exampleIndexMap_def)
  from originalPos_generatedPositionFor [OF mappedInfo_fields(1), of "''/a.ts''" "diagnosticAt 2 3"
      exampleIndexMap]
  show ?thesis
    by (simp add: l moved_generated key_3_5 idx mappedInfo_fields findDefinition_def
          sortedDefinitions_def contains_def)
qed

text \<open>
  C1, as specified, fails. The consumer \<open>movedConsumer\<close> maps the original
  position 2:3 to the generated position 3:5 and the generated position 2:0 to the
  original position 2:0. For a diagnostic reported at 2:3 the code looks up 3:5, which
  lies after the reported position; translating 2:3 from generated to original
  coordinates gives 2:0, the nearest mapping at or before it.
\<close>

theorem originalPos_counterexample:
  "originalPos (Some movedConsumer) ''/a.ts'' (diagnosticAt 2 3)
     = \<lparr>pos_line = Some 3, pos_column = Some 5\<rparr>
   \<and> originalPositionFor movedConsumer (line (diagnosticAt 2 3), column (diagnosticAt 2 3))
     = \<lparr>pos_line = Some 2, pos_column = Some 0\<rparr>
   \<and> originalPos (Some movedConsumer) ''/a.ts'' (diagnosticAt 2 3)
     \<noteq> originalPositionFor movedConsumer (line (diagnosticAt 2 3), column (diagnosticAt 2 3))"
proof -
  have l: "line (diagnosticAt 2 3) = 2" "column (diagnosticAt 2 3) = 3"
    by (simp_all add: diagnosticAt_def)
  show ?thesis
    by (simp add: originalPos_def l moved_generated moved_original)
qed

section \<open>The labels of the synthetic tasks\<close>

lemma acyclic_nested: "acyclic_store nested"
  unfolding acyclic_store_def
proof
  fix t
  have "ancestors nested 2 [1, 0]" "ancestors nested 1 [0]"
    by (simp_all add: nested_def emptyTask_def)
  moreover have "t \<noteq> 1 \<Longrightarrow> t \<noteq> 2 \<Longrightarrow> ancestors nested t []"
    by (simp add: nested_def emptyTask_def)
  ultimately show "\<exists>ps. ancestors nested t ps" by blast
qed

text \<open>
  C8, as the code has it. On a store of trees, attaching the diagnostics of one file
  appends to every object the synthetic tasks of the diagnostics it owns, in order, and
  each is labelled with the 1-based position of its diagnostic in the list of the
  file's diagnostics: its name is \<open>error expect\<close> followed by that position, its id
  the position less one.
\<close>

theorem task_label_file_ordinal:
  assumes "acyclic_store h"
  shows "\<exists>h'. attachErrors cim info path 0 errors h = Some h'
           \<and> (\<forall>s. tasks (h' s) = tasks (h s) @ map Typecheck (newTasks cim info path h s 0 errors))
           \<and> (\<forall>s. map tc_name (newTasks cim info path h s 0 errors)
                 = map (\<lambda>(i, e). ''error expect '' @ toString (i + 1))
                     (filter (\<lambda>(i, e). owningSuite cim info path (snd e) = s)
                        (enumerate 0 errors)))
           \<and> (\<forall>s. map tc_id (newTasks cim info path h s 0 errors)
                 = map (\<lambda>(i, e). toString i)
                     (filter (\<lambda>(i, e). owningSuite cim info path (snd e) = s)
                        (enumerate 0 errors)))"
proof -
  from attachErrors_returns [OF assms] obtain h' where
    h': "attachErrors cim info path 0 errors h = Some h'" ..
  have "\<forall>s. tasks (h' s) = tasks (h s) @ map Typecheck (newTasks cim info path h s 0 errors)"
    using attachErrors_frame [OF h'] by blast
  moreover have "\<forall>s. map tc_name (newTasks cim info path h s 0 errors)
                 = map (\<lambda>(i, e). ''error expect '' @ toString (i + 1))
                     (filter (\<lambda>(i, e). owningSuite cim info path (snd e) = s)
                        (enumerate 0 errors))"
    by (simp add: newTasks_def typecheckTask_def Let_def case_prod_unfold comp_def)
  moreover have "\<forall>s. map tc_id (newTasks cim info path h s 0 errors)
                 = map (\<lambda>(i, e). toString i)
                     (filter (\<lambda>(i, e). owningSuite cim info path (snd e) = s)
                        (enumerate 0 errors))"
    by (simp add: newTasks_def typecheckTask_def Let_def case_prod_unfold comp_def)
  ultimately show ?thesis using h' by blast
qed

lemma label_2: "''error expect '' @ toString (1 + 1) = ''error expect 2''"
  by code_simp

lemma example_enumerate:
  "filter (\<lambda>(i, e). owningSuite exampleIndexMap exampleInfo ''/a.ts'' (snd e) = 1)
     (enumerate 0 [suiteError ''/a.ts'' (diagnosticAt 3 5), suiteError ''/a.ts'' (diagnosticAt 7 2)])
   = [(1, suiteError ''/a.ts'' (diagnosticAt 7 2))]"
  by (simp add: suiteError_def example_owner)

theorem task_label_file_ordinal_witness:
  "acyclic_store nested
   \<and> (\<exists>h'. attachErrors exampleIndexMap exampleInfo ''/a.ts'' 0
              [suiteError ''/a.ts'' (diagnosticAt 3 5), suiteError ''/a.ts'' (diagnosticAt 7 2)]
              nested = Some h'
         \<and> syntheticNames 1 h' = [''error expect 2''])"
proof -
  let ?es = "[suiteError ''/a.ts'' (diagnosticAt 3 5), suiteError ''/a.ts'' (diagnosticAt 7 2)]"
  from task_label_file_ordinal [OF acyclic_nested, of exampleIndexMap exampleInfo "''/a.ts''" ?es]
  obtain h' where h': "attachErrors exampleIndexMap exampleInfo ''/a.ts'' 0 ?es nested = Some h'"
    and t: "tasks (h' 1) = tasks (nested 1)
              @ map Typecheck (newTasks exampleIndexMap exampleInfo ''/a.ts'' nested 1 0 ?es)"
    and n: "map tc_name (newTasks exampleIndexMap exampleInfo ''/a.ts'' nested 1 0 ?es)
              = map (\<lambda>(i, e). ''error expect '' @ toString (i + 1))
                  (filter (\<lambda>(i, e). owningSuite exampleIndexMap exampleInfo ''/a.ts'' (snd e) = 1)
                     (enumerate 0 ?es))"
    by blast
  from n have "map tc_name (newTasks exampleIndexMap exampleInfo ''/a.ts'' nested 1 0 ?es)
      = [''error expect 2'']"
    unfolding example_enumerate using label_2 by simp
  moreover have "syntheticNames 1 h'
      = map tc_name (newTasks exampleIndexMap exampleInfo ''/a.ts'' nested 1 0 ?es)"
    unfolding syntheticNames_def t
    by (simp add: nested_def emptyTask_def comp_def)
  ultimately have "syntheticNames 1 h' = [''error expect 2'']" by simp
  with h' acyclic_nested show ?thesis by blast
qed

text \<open>
  C8, as specified, fails. The file has two diagnostics: the first falls into the
  inner suite \<open>2\<close>, the second into the outer suite \<open>1\<close>. The second is the
  first and only synthetic task of suite \<open>1\<close>, and it is labelled 2.
\<close>

theorem task_label_counterexample:
  "map_option (syntheticNames 1)
     (attachErrors exampleIndexMap exampleInfo ''/a.ts'' 0
        [suiteError ''/a.ts'' (diagnosticAt 3 5), suiteError ''/a.ts'' (diagnosticAt 7 2)]
        nested)
   = Some [''error expect 2'']"
proof -
  let ?es = "[suiteError ''/a.ts'' (diagnosticAt 3 5), suiteError ''/a.ts'' (diagnosticAt 7 2)]"
  from attachErrors_returns [OF acyclic_nested] obtain h' where
    h': "attachErrors exampleIndexMap exampleInfo ''/a.ts'' 0 ?es nested = Some h'" ..
  from attachErrors_frame [OF h', of 1]
  have t: "tasks (h' 1) = tasks (nested 1)
             @ map Typecheck (newTasks exampleIndexMap exampleInfo ''/a.ts'' nested 1 0 ?es)"
    by simp
  have "map tc_name (newTasks exampleIndexMap exampleInfo ''/a.ts'' nested 1 0 ?es)
      = map (\<lambda>(i, e). ''error expect '' @ toString (i + 1))
          (filter (\<lambda>(i, e). owningSuite exampleIndexMap exampleInfo ''/a.ts'' (snd e) = 1)
             (enumerate 0 ?es))"
    by (simp add: newTasks_def typecheckTask_def Let_def case_prod_unfold comp_def)
  then have "map tc_name (newTasks exampleIndexMap exampleInfo ''/a.ts'' nested 1 0 ?es)
      = [''error expect 2'']"
    unfolding example_enumerate using label_2 by simp
  moreover have "syntheticNames 1 h'
      = map tc_name (newTasks exampleIndexMap exampleInfo ''/a.ts'' nested 1 0 ?es)"
    unfolding syntheticNames_def t
    by (simp add: nested_def emptyTask_def comp_def)
  ultimately have "syntheticNames 1 h' = [''error expect 2'']" by simp
  then show ?thesis unfolding h' by simp
qed

section \<open>The loop over the requested files\<close>

lemma allNewTasks_Nil [simp]: "allNewTasks imp tsts tE h s [] = []"
  by (simp add: allNewTasks_def)

lemma allNewTasks_Cons:
  "allNewTasks imp tsts tE h s (p # ps) =
     (case tsts p of
        None \<Rightarrow> []
      | Some info \<Rightarrow>
          (case mapGet tE p of
             None \<Rightarrow> []
           | Some errors \<Rightarrow> newTasks (createIndexMap imp) info p h s 0 errors))
     @ allNewTasks imp tsts tE h s ps"
  by (simp add: allNewTasks_def)

lemma allNewTasks_cong:
  "mode (h' s) = mode (h s) \<Longrightarrow> allNewTasks imp tsts tE h' s ps = allNewTasks imp tsts tE h s ps"
  by (induction ps) (simp_all add: allNewTasks_Cons newTasks_cong [of h' s h] split: option.splits)

lemma eachTestFile_frame:
  "eachTestFile imp tsts tE paths fs h = Some (Inr fs', h') \<Longrightarrow>
     fs' = fs @ map (\<lambda>p. file_ref (the (tsts p))) paths
     \<and> (\<forall>p \<in> set paths. tsts p \<noteq> None)
     \<and> mode (h' x) = mode (h x) \<and> suite (h' x) = suite (h x)
     \<and> tasks (h' x) = tasks (h x) @ map Typecheck (allNewTasks imp tsts tE h x paths)"
proof (induction paths arbitrary: fs h)
  case Nil
  then show ?case by simp
next
  case (Cons p ps)
  from Cons.prems obtain info where info: "tsts p = Some info"
    by (cases "tsts p") simp_all
  show ?case
  proof (cases "mapGet tE p")
    case None
    with Cons.prems info
    have "eachTestFile imp tsts tE ps (fs @ [file_ref info]) h = Some (Inr fs', h')"
      by simp
    from Cons.IH [OF this] info None show ?thesis
      by (simp add: allNewTasks_Cons)
  next
    case (Some errors)
    with Cons.prems info obtain h1 where
      one: "attachErrors (createIndexMap imp) info p 0 errors h = Some h1"
      and rest: "eachTestFile imp tsts tE ps (fs @ [file_ref info]) h1 = Some (Inr fs', h')"
      by (auto split: option.splits)
    from attachErrors_frame [OF one, of x] have
      m: "mode (h1 x) = mode (h x)" and s: "suite (h1 x) = suite (h x)"
      and t: "tasks (h1 x) = tasks (h x)
                @ map Typecheck (newTasks (createIndexMap imp) info p h x 0 errors)"
      by simp_all
    have c: "allNewTasks imp tsts tE h1 x ps = allNewTasks imp tsts tE h x ps"
      using m by (rule allNewTasks_cong)
    from Cons.IH [OF rest] have
      "fs' = (fs @ [file_ref info]) @ map (\<lambda>p. file_ref (the (tsts p))) ps"
      "\<forall>p \<in> set ps. tsts p \<noteq> None"
      "mode (h' x) = mode (h1 x)" "suite (h' x) = suite (h1 x)"
      "tasks (h' x) = tasks (h1 x) @ map Typecheck (allNewTasks imp tsts tE h1 x ps)"
      by blast+
    then show ?thesis
      unfolding c m s t allNewTasks_Cons using info Some by simp
  qed
qed

lemma eachTestFile_returns:
  "acyclic_store h \<Longrightarrow> \<forall>p \<in> set paths. tsts p \<noteq> None \<Longrightarrow>
     \<exists>h'. eachTestFile imp tsts tE paths fs h
             = Some (Inr (fs @ map (\<lambda>p. file_ref (the (tsts p))) paths), h')"
proof (induction paths arbitrary: fs h)
  case Nil
  then show ?case by simp
next
  case (Cons p ps)
  from Cons.prems obtain info where info: "tsts p = Some info" by auto
  from Cons.prems have ps: "\<forall>p \<in> set ps. tsts p \<noteq> None" by simp
  show ?case
  proof (cases "mapGet tE p")
    case None
    from Cons.IH [OF Cons.prems(1) ps, of "fs @ [file_ref info]"] info None
    show ?thesis by simp
  next
    case (Some errors)
    from attachErrors_returns [OF Cons.prems(1)] obtain h1 where
      one: "attachErrors (createIndexMap imp) info p 0 errors h = Some h1" ..
    have "acyclic_store h1 = acyclic_store h"
    proof (rule acyclic_store_cong)
      fix x show "suite (h1 x) = suite (h x)"
        using attachErrors_frame [OF one, of x] by simp
    qed
    with Cons.prems have "acyclic_store h1" by simp
    from Cons.IH [OF this ps, of "fs @ [file_ref info]"] info Some one
    show ?thesis by simp
  qed
qed

lemma prepareResults_eq:
  "prepareResults imp out s =
     (case currentTests imp s of
        (tsts, s2) \<Rightarrow>
          (case eachTestFile imp tsts (fst (parseTscLikeOutput imp out (stackTraceLimit s)))
                  (newSet (this_files s)) [] (objects s2) of
             None \<Rightarrow> None
           | Some (Inl e, h) \<Rightarrow> Some (Inl e, s2\<lparr>objects := h\<rparr>)
           | Some (Inr fs, h) \<Rightarrow>
               Some (Inr \<lparr>files = fs,
                          sourceErrors = collectSourceErrors (newSet (this_files s))
                             (fst (parseTscLikeOutput imp out (stackTraceLimit s)))\<rparr>,
                     s2\<lparr>objects := h\<rparr>)))"
proof -
  obtain tE g where p: "parseTscLikeOutput imp out (stackTraceLimit s) = (tE, g)"
    by (cases "parseTscLikeOutput imp out (stackTraceLimit s)")
  with parseTscLikeOutput_limit [of imp out "stackTraceLimit s"]
  have g: "g = stackTraceLimit s" by simp
  show ?thesis
    unfolding prepareResults_def p
    by (simp add: g Let_def split: prod.splits option.splits sum.splits)
qed

lemma newSet_set [simp]: "set (newSet xs) = set xs"
  by (induction xs) auto

lemma newSet_distinct [simp]: "distinct (newSet xs)"
  by (induction xs) (auto simp: distinct_removeAll)

lemma newSet_id: "distinct xs \<Longrightarrow> newSet xs = xs"
  by (induction xs) auto

section \<open>The files of a snapshot\<close>

text \<open>
  When every requested file has an entry in the cache of test definitions that
  \<open>prepareResults\<close> works with (the one it finds, or the one it collects when it
  finds none), and the suites of the store form trees, \<open>prepareResults\<close> returns a
  snapshot whatever the checker's output is, and the \<open>files\<close> of the snapshot are
  the file records of the requested files, one for each distinct path in the order of
  first request, with or without diagnostics.
\<close>

lemma files_one_per_requested:
  assumes "currentTests imp s = (tsts, s2)"
    and "\<forall>p \<in> set (this_files s). tsts p \<noteq> None"
    and "acyclic_store (objects s2)"
  shows "\<exists>res s'. prepareResults imp out s = Some (Inr res, s')
           \<and> files res = map (\<lambda>p. file_ref (the (tsts p))) (newSet (this_files s))
           \<and> distinct (newSet (this_files s))
           \<and> set (newSet (this_files s)) = set (this_files s)
           \<and> (distinct (this_files s) \<longrightarrow>
                 files res = map (\<lambda>p. file_ref (the (tsts p))) (this_files s))"
proof -
  let ?tE = "fst (parseTscLikeOutput imp out (stackTraceLimit s))"
  from assms(2) have "\<forall>p \<in> set (newSet (this_files s)). tsts p \<noteq> None" by simp
  from eachTestFile_returns [OF assms(3) this, of imp ?tE "[]"] obtain h' where
    "eachTestFile imp tsts ?tE (newSet (this_files s)) [] (objects s2)
       = Some (Inr (map (\<lambda>p. file_ref (the (tsts p))) (newSet (this_files s))), h')"
    by auto
  then have "prepareResults imp out s
      = Some (Inr \<lparr>files = map (\<lambda>p. file_ref (the (tsts p))) (newSet (this_files s)),
                   sourceErrors = collectSourceErrors (newSet (this_files s)) ?tE\<rparr>,
              s2\<lparr>objects := h'\<rparr>)"
    by (simp add: prepareResults_eq assms(1))
  then show ?thesis
    by (auto simp: newSet_id)
qed

lemma example_currentTests:
  "currentTests exampleImports exampleChecker
     = ([''/a.ts'' \<mapsto> exampleInfo],
        exampleChecker\<lparr>objects := nested, tests := Some [''/a.ts'' \<mapsto> exampleInfo]\<rparr>)"
  "currentTests exampleImports uncollectedChecker
     = ([''/a.ts'' \<mapsto> exampleInfo],
        uncollectedChecker\<lparr>objects := nested, tests := Some [''/a.ts'' \<mapsto> exampleInfo]\<rparr>)"
proof -
  have f: "filepath exampleInfo = ''/a.ts''"
    by (simp add: exampleInfo_def)
  show "currentTests exampleImports exampleChecker
     = ([''/a.ts'' \<mapsto> exampleInfo],
        exampleChecker\<lparr>objects := nested, tests := Some [''/a.ts'' \<mapsto> exampleInfo]\<rparr>)"
    by (simp add: currentTests_def collectTests_def exampleChecker_def exampleImports_def
          reduceTests_def f)
  show "currentTests exampleImports uncollectedChecker
     = ([''/a.ts'' \<mapsto> exampleInfo],
        uncollectedChecker\<lparr>objects := nested, tests := Some [''/a.ts'' \<mapsto> exampleInfo]\<rparr>)"
    by (simp add: currentTests_def collectTests_def exampleChecker_def uncollectedChecker_def
          exampleImports_def reduceTests_def f)
qed

text \<open>
  C3. The instance is asked for \<open>/a.ts\<close> and \<open>/c.ts\<close>. Collection yields a
  record for the first and \<open>null\<close> for the second, which \<open>collectTests\<close> leaves
  out of the cache. On an empty output \<open>prepareResults\<close> throws a \<open>TypeError\<close>
  at the second path: it returns no snapshot, so no \<open>files\<close> sequence with a record
  per requested file.
\<close>

theorem prepareResults_throws_uncollected:
  "this_files uncollectedChecker = [''/a.ts'', ''/c.ts'']
   \<and> fst (collectFileTests exampleImports ''/c.ts'' (objects uncollectedChecker)) = None
   \<and> fst (currentTests exampleImports uncollectedChecker) ''/a.ts'' = Some exampleInfo
   \<and> fst (currentTests exampleImports uncollectedChecker) ''/c.ts'' = None
   \<and> map_option fst (prepareResults exampleImports [] uncollectedChecker) = Some (Inl TypeError)"
proof -
  have "fst (parseTscLikeOutput exampleImports [] (stackTraceLimit uncollectedChecker)) = []"
    by (simp add: parseTscLikeOutput_def exampleImports_def)
  moreover have f: "this_files uncollectedChecker = [''/a.ts'', ''/c.ts'']"
    by (simp add: uncollectedChecker_def)
  moreover have "fst (collectFileTests exampleImports ''/c.ts'' (objects uncollectedChecker)) = None"
    by (simp add: exampleImports_def)
  ultimately show ?thesis
    by (simp add: prepareResults_eq example_currentTests(2) mapGet_def)
qed

section \<open>The classification of the diagnostics\<close>

lemma mapSet_keys: "fst ` set (mapSet m k v) = insert k (fst ` set m)"
  by (induction m k v rule: mapSet.induct) auto

lemma mapSet_distinct: "distinct (map fst m) \<Longrightarrow> distinct (map fst (mapSet m k v))"
proof (induction m k v rule: mapSet.induct)
  case (1 k v)
  then show ?case by simp
next
  case (2 k' v' m k v)
  show ?case
  proof (cases "k' = k")
    case True
    with 2 show ?thesis by simp
  next
    case False
    with 2 have "distinct (map fst (mapSet m k v))" by simp
    moreover from 2 False have "k' \<notin> fst ` set (mapSet m k v)"
      by (simp add: mapSet_keys)
    ultimately show ?thesis using False by simp
  qed
qed

lemma mapSet_fresh: "k \<notin> fst ` set m \<Longrightarrow> mapSet m k v = m @ [(k, v)]"
  by (induction m k v rule: mapSet.induct) auto

lemma eachRawError_distinct:
  "distinct (map fst acc) \<Longrightarrow> distinct (map fst (fst (eachRawError r raw acc g)))"
proof (induction raw arbitrary: acc)
  case Nil
  then show ?case by simp
next
  case (Cons a raw)
  obtain path errors where a: "a = (path, errors)" by (cases a)
  from Cons.prems have "distinct (map fst (mapSet acc (r path) (map (suiteError (r path)) errors)))"
    by (rule mapSet_distinct)
  from Cons.IH [OF this] show ?case
    by (simp add: a makeSuiteErrors_eq Let_def)
qed

lemma eachRawError_fresh:
  "distinct (map fst acc @ map (\<lambda>(p, errs). r p) raw) \<Longrightarrow>
     fst (eachRawError r raw acc g)
       = acc @ map (\<lambda>(p, errs). (r p, map (suiteError (r p)) errs)) raw"
proof (induction raw arbitrary: acc)
  case Nil
  then show ?case by simp
next
  case (Cons a raw)
  obtain path errors where a: "a = (path, errors)" by (cases a)
  from Cons.prems have fresh: "r path \<notin> fst ` set acc"
    by (auto simp: a)
  have step: "mapSet acc (r path) (map (suiteError (r path)) errors)
      = acc @ [(r path, map (suiteError (r path)) errors)]"
    using fresh by (rule mapSet_fresh)
  from Cons.prems have "distinct (map fst (acc @ [(r path, map (suiteError (r path)) errors)])
      @ map (\<lambda>(p, errs). r p) raw)"
    by (auto simp: a)
  from Cons.IH [OF this] show ?case
    by (simp add: a makeSuiteErrors_eq Let_def step)
qed

lemma collectSourceErrors_eq:
  "collectSourceErrors testFiles tE
     = concat (map (\<lambda>(p, errs). map fst errs) (filter (\<lambda>(p, errs). p \<notin> set testFiles) tE))"
  unfolding collectSourceErrors_def by (induction tE) auto

lemma length_filter_enumerate:
  "length (filter (\<lambda>(i, e). P e) (enumerate n xs)) = length (filter P xs)"
  by (induction xs arbitrary: n) simp_all

lemma newTasks_length:
  "length (newTasks cim info path h s idx errors)
     = length (filter (\<lambda>e. owningSuite cim info path (snd e) = s) errors)"
  by (simp add: newTasks_def length_filter_enumerate)

lemma newTasks_mem:
  assumes "t \<in> set (newTasks cim info path h s idx errors)"
  shows "\<exists>i e. e \<in> set errors \<and> owningSuite cim info path (snd e) = s
           \<and> t = typecheckTask h (file_ref info) s i (fst e)"
proof -
  from assms obtain i e where "(i, e) \<in> set (enumerate idx errors)"
    and "owningSuite cim info path (snd e) = s"
    and "t = typecheckTask h (file_ref info) s i (fst e)"
    by (auto simp: newTasks_def)
  moreover from this have "e \<in> set errors"
    by (auto simp: in_set_enumerate_eq)
  ultimately show ?thesis by blast
qed

lemma allNewTasks_mem:
  assumes "t \<in> set (allNewTasks imp tsts tE h s paths)"
  shows "\<exists>p info errors. p \<in> set paths \<and> tsts p = Some info \<and> mapGet tE p = Some errors
           \<and> t \<in> set (newTasks (createIndexMap imp) info p h s 0 errors)"
  using assms by (auto simp: allNewTasks_def split: option.splits) metis

lemma typecheckTask_error:
  "error (tc_result (typecheckTask h f s i err)) = Some e \<Longrightarrow> e = err"
  by (simp add: typecheckTask_def Let_def split: if_splits)

lemma wellBuilt_stack:
  assumes "wellBuilt tE" and "(p, errs) \<in> set tE" and "e \<in> set errs"
  shows "stacks (fst e) = [\<lparr>stack_file = p, stack_line = line (snd e),
            stack_column = column (snd e), stack_method = [],
            sourcePos = (line (snd e), column (snd e))\<rparr>]"
proof -
  from assms(1,2) obtain infos where "errs = map (suiteError p) infos"
    unfolding wellBuilt_def by blast
  with assms(3) obtain info where "e = suiteError p info" by auto
  then show ?thesis by (simp add: suiteError_def)
qed

lemma prepareResults_returns:
  assumes "currentTests imp s = (tsts, s2)"
    and "\<forall>p \<in> set (this_files s). tsts p \<noteq> None"
    and "acyclic_store (objects s2)"
  shows "\<exists>res s'. prepareResults imp out s = Some (Inr res, s')"
proof -
  from assms(2) have "\<forall>p \<in> set (newSet (this_files s)). tsts p \<noteq> None" by simp
  from eachTestFile_returns [OF assms(3) this,
      of imp "fst (parseTscLikeOutput imp out (stackTraceLimit s))" "[]"]
  show ?thesis
    by (auto simp: prepareResults_eq assms(1))
qed

lemma prepareResults_Inr:
  assumes "prepareResults imp out s = Some (Inr res, s')"
    and "currentTests imp s = (tsts, s2)"
  shows "\<exists>h. eachTestFile imp tsts (parsedDiagnostics imp out s) (newSet (this_files s)) []
                (objects s2) = Some (Inr (files res), h)
           \<and> s' = s2\<lparr>objects := h\<rparr>
           \<and> sourceErrors res
               = collectSourceErrors (newSet (this_files s)) (parsedDiagnostics imp out s)"
  using assms
  by (auto simp: prepareResults_eq parsedDiagnostics_def split: option.splits sum.splits)

lemma classified_of_result:
  assumes "prepareResults imp out s = Some (Inr res, s')"
    and "currentTests imp s = (tsts, s2)"
  shows "distinct (map fst (parsedDiagnostics imp out s))
     \<and> (distinct (map (\<lambda>(p, errs). resolvePath imp p) (getRawErrsMapFromTsCompile imp out)) \<longrightarrow>
          parsedDiagnostics imp out s
            = map (\<lambda>(p, errs). (resolvePath imp p, map (suiteError (resolvePath imp p)) errs))
                (getRawErrsMapFromTsCompile imp out))
     \<and> sourceErrors res
          = concat (map (\<lambda>(p, errs). map fst errs)
                      (filter (\<lambda>(p, errs). p \<notin> set (this_files s)) (parsedDiagnostics imp out s)))
     \<and> (\<forall>x. tasks (objects s' x)
               = tasks (objects s2 x)
                 @ map Typecheck (allNewTasks imp tsts (parsedDiagnostics imp out s) (objects s2) x
                                    (newSet (this_files s))))
     \<and> (\<forall>p \<in> set (this_files s). \<forall>errs. mapGet (parsedDiagnostics imp out s) p = Some errs \<longrightarrow>
          (\<exists>info. tsts p = Some info
             \<and> (\<forall>x. length (newTasks (createIndexMap imp) info p (objects s2) x 0 errs)
                      = length (filter (\<lambda>e. owningSuite (createIndexMap imp) info p (snd e) = x) errs))
             \<and> (\<forall>x. \<forall>t \<in> set (newTasks (createIndexMap imp) info p (objects s2) x 0 errs).
                      tc_suite t = x \<and> tc_file t = file_ref info)))
     \<and> (\<forall>e \<in> set (sourceErrors res). \<forall>f \<in> set (stacks e). stack_file f \<notin> set (this_files s))
     \<and> (\<forall>x. \<forall>t \<in> set (allNewTasks imp tsts (parsedDiagnostics imp out s) (objects s2) x
                           (newSet (this_files s))).
           \<forall>e. error (tc_result t) = Some e \<longrightarrow>
             (\<forall>f \<in> set (stacks e). stack_file f \<in> set (this_files s)))"
proof -
  let ?tE = "parsedDiagnostics imp out s"
  from prepareResults_Inr [OF assms] obtain h where
    loop: "eachTestFile imp tsts ?tE (newSet (this_files s)) [] (objects s2)
             = Some (Inr (files res), h)"
    and s': "s' = s2\<lparr>objects := h\<rparr>"
    and src: "sourceErrors res = collectSourceErrors (newSet (this_files s)) ?tE"
    by blast
  have wb: "wellBuilt ?tE"
    unfolding parsedDiagnostics_def by (rule parseTscLikeOutput_wellBuilt)
  have c1: "distinct (map fst ?tE)"
    unfolding parsedDiagnostics_def parseTscLikeOutput_def
    by (rule eachRawError_distinct) simp
  have c2: "distinct (map (\<lambda>(p, errs). resolvePath imp p) (getRawErrsMapFromTsCompile imp out)) \<longrightarrow>
          ?tE = map (\<lambda>(p, errs). (resolvePath imp p, map (suiteError (resolvePath imp p)) errs))
                (getRawErrsMapFromTsCompile imp out)"
    unfolding parsedDiagnostics_def parseTscLikeOutput_def
    using eachRawError_fresh [of "[]" "resolvePath imp" "getRawErrsMapFromTsCompile imp out"]
    by simp
  have c3: "sourceErrors res
          = concat (map (\<lambda>(p, errs). map fst errs)
                      (filter (\<lambda>(p, errs). p \<notin> set (this_files s)) ?tE))"
    unfolding src by (simp add: collectSourceErrors_eq)
  have c4: "\<forall>x. tasks (objects s' x)
               = tasks (objects s2 x)
                 @ map Typecheck (allNewTasks imp tsts ?tE (objects s2) x (newSet (this_files s)))"
    using eachTestFile_frame [OF loop] by (simp add: s')
  have present: "\<forall>p \<in> set (this_files s). tsts p \<noteq> None"
    using eachTestFile_frame [OF loop, of 0] by simp
  have c5: "\<forall>p \<in> set (this_files s). \<forall>errs. mapGet ?tE p = Some errs \<longrightarrow>
          (\<exists>info. tsts p = Some info
             \<and> (\<forall>x. length (newTasks (createIndexMap imp) info p (objects s2) x 0 errs)
                      = length (filter (\<lambda>e. owningSuite (createIndexMap imp) info p (snd e) = x) errs))
             \<and> (\<forall>x. \<forall>t \<in> set (newTasks (createIndexMap imp) info p (objects s2) x 0 errs).
                      tc_suite t = x \<and> tc_file t = file_ref info))"
  proof (intro ballI allI impI)
    fix p errs assume "p \<in> set (this_files s)"
    with present obtain info where info: "tsts p = Some info" by auto
    have "\<forall>x. \<forall>t \<in> set (newTasks (createIndexMap imp) info p (objects s2) x 0 errs).
                      tc_suite t = x \<and> tc_file t = file_ref info"
      by (auto simp: newTasks_def typecheckTask_def Let_def)
    with info show "\<exists>info. tsts p = Some info
             \<and> (\<forall>x. length (newTasks (createIndexMap imp) info p (objects s2) x 0 errs)
                      = length (filter (\<lambda>e. owningSuite (createIndexMap imp) info p (snd e) = x) errs))
             \<and> (\<forall>x. \<forall>t \<in> set (newTasks (createIndexMap imp) info p (objects s2) x 0 errs).
                      tc_suite t = x \<and> tc_file t = file_ref info)"
      by (simp add: newTasks_length)
  qed
  have c6: "\<forall>e \<in> set (sourceErrors res). \<forall>f \<in> set (stacks e). stack_file f \<notin> set (this_files s)"
  proof (intro ballI)
    fix e f assume "e \<in> set (sourceErrors res)" and f: "f \<in> set (stacks e)"
    then obtain p errs e' where "(p, errs) \<in> set ?tE" "p \<notin> set (this_files s)"
      "e' \<in> set errs" "e = fst e'"
      unfolding c3 by auto
    with wellBuilt_stack [OF wb, of p errs e'] f
    show "stack_file f \<notin> set (this_files s)" by auto
  qed
  have c7: "\<forall>x. \<forall>t \<in> set (allNewTasks imp tsts ?tE (objects s2) x (newSet (this_files s))).
           \<forall>e. error (tc_result t) = Some e \<longrightarrow>
             (\<forall>f \<in> set (stacks e). stack_file f \<in> set (this_files s))"
  proof (intro allI ballI impI)
    fix x t e f
    assume t: "t \<in> set (allNewTasks imp tsts ?tE (objects s2) x (newSet (this_files s)))"
      and e: "error (tc_result t) = Some e" and f: "f \<in> set (stacks e)"
    from allNewTasks_mem [OF t] obtain p info errors where
      p: "p \<in> set (newSet (this_files s))" and "tsts p = Some info"
      and get: "mapGet ?tE p = Some errors"
      and tn: "t \<in> set (newTasks (createIndexMap imp) info p (objects s2) x 0 errors)"
      by blast
    from newTasks_mem [OF tn] obtain i e' where e': "e' \<in> set errors"
      and tt: "t = typecheckTask (objects s2) (file_ref info) x i (fst e')"
      by blast
    from e tt have "e = fst e'"
      using typecheckTask_error by blast
    moreover from get have "(p, errors) \<in> set ?tE"
      by (simp add: mapGet_def map_of_SomeD)
    ultimately have "stacks e = [\<lparr>stack_file = p, stack_line = line (snd e'),
            stack_column = column (snd e'), stack_method = [],
            sourcePos = (line (snd e'), column (snd e'))\<rparr>]"
      using wellBuilt_stack [OF wb _ e'] by simp
    with f p show "stack_file f \<in> set (this_files s)" by auto
  qed
  from c1 c2 c3 c4 c5 c6 c7 show ?thesis by blast
qed

text \<open>
  When every requested file has an entry in the cache of test definitions and the
  suites of the store form trees, \<open>prepareResults\<close> returns a snapshot, and what
  \<open>classified_of_result\<close> says holds of every snapshot it returns.
\<close>

lemma diagnostics_classified:
  assumes "currentTests imp s = (tsts, s2)"
  shows "((\<forall>p \<in> set (this_files s). tsts p \<noteq> None) \<and> acyclic_store (objects s2) \<longrightarrow>
            (\<exists>res s'. prepareResults imp out s = Some (Inr res, s')))
     \<and> (\<forall>res s'. prepareResults imp out s = Some (Inr res, s') \<longrightarrow>
          distinct (map fst (parsedDiagnostics imp out s))
          \<and> (distinct (map (\<lambda>(p, errs). resolvePath imp p) (getRawErrsMapFromTsCompile imp out)) \<longrightarrow>
               parsedDiagnostics imp out s
                 = map (\<lambda>(p, errs). (resolvePath imp p, map (suiteError (resolvePath imp p)) errs))
                     (getRawErrsMapFromTsCompile imp out))
          \<and> sourceErrors res
               = concat (map (\<lambda>(p, errs). map fst errs)
                           (filter (\<lambda>(p, errs). p \<notin> set (this_files s)) (parsedDiagnostics imp out s)))
          \<and> (\<forall>x. tasks (objects s' x)
                    = tasks (objects s2 x)
                      @ map Typecheck (allNewTasks imp tsts (parsedDiagnostics imp out s) (objects s2) x
                                         (newSet (this_files s))))
          \<and> (\<forall>p \<in> set (this_files s). \<forall>errs. mapGet (parsedDiagnostics imp out s) p = Some errs \<longrightarrow>
               (\<exists>info. tsts p = Some info
                  \<and> (\<forall>x. length (newTasks (createIndexMap imp) info p (objects s2) x 0 errs)
                           = length (filter (\<lambda>e. owningSuite (createIndexMap imp) info p (snd e) = x) errs))
                  \<and> (\<forall>x. \<forall>t \<in> set (newTasks (createIndexMap imp) info p (objects s2) x 0 errs).
                           tc_suite t = x \<and> tc_file t = file_ref info)))
          \<and> (\<forall>e \<in> set (sourceErrors res). \<forall>f \<in> set (stacks e). stack_file f \<notin> set (this_files s))
          \<and> (\<forall>x. \<forall>t \<in> set (allNewTasks imp tsts (parsedDiagnostics imp out s) (objects s2) x
                                (newSet (this_files s))).
                \<forall>e. error (tc_result t) = Some e \<longrightarrow>
                  (\<forall>f \<in> set (stacks e). stack_file f \<in> set (this_files s))))"
proof -
  have returns: "(\<forall>p \<in> set (this_files s). tsts p \<noteq> None) \<and> acyclic_store (objects s2) \<longrightarrow>
            (\<exists>res s'. prepareResults imp out s = Some (Inr res, s'))"
    using prepareResults_returns [OF assms] by blast
  have classifies: "\<forall>res s'. prepareResults imp out s = Some (Inr res, s') \<longrightarrow>
          (distinct (map fst (parsedDiagnostics imp out s))
          \<and> (distinct (map (\<lambda>(p, errs). resolvePath imp p) (getRawErrsMapFromTsCompile imp out)) \<longrightarrow>
               parsedDiagnostics imp out s
                 = map (\<lambda>(p, errs). (resolvePath imp p, map (suiteError (resolvePath imp p)) errs))
                     (getRawErrsMapFromTsCompile imp out))
          \<and> sourceErrors res
               = concat (map (\<lambda>(p, errs). map fst errs)
                           (filter (\<lambda>(p, errs). p \<notin> set (this_files s)) (parsedDiagnostics imp out s)))
          \<and> (\<forall>x. tasks (objects s' x)
                    = tasks (objects s2 x)
                      @ map Typecheck (allNewTasks imp tsts (parsedDiagnostics imp out s) (objects s2) x
                                         (newSet (this_files s))))
          \<and> (\<forall>p \<in> set (this_files s). \<forall>errs. mapGet (parsedDiagnostics imp out s) p = Some errs \<longrightarrow>
               (\<exists>info. tsts p = Some info
                  \<and> (\<forall>x. length (newTasks (createIndexMap imp) info p (objects s2) x 0 errs)
                           = length (filter (\<lambda>e. owningSuite (createIndexMap imp) info p (snd e) = x) errs))
                  \<and> (\<forall>x. \<forall>t \<in> set (newTasks (createIndexMap imp) info p (objects s2) x 0 errs).
                           tc_suite t = x \<and> tc_file t = file_ref info)))
          \<and> (\<forall>e \<in> set (sourceErrors res). \<forall>f \<in> set (stacks e). stack_file f \<notin> set (this_files s))
          \<and> (\<forall>x. \<forall>t \<in> set (allNewTasks imp tsts (parsedDiagnostics imp out s) (objects s2) x
                                (newSet (this_files s))).
                \<forall>e. error (tc_result t) = Some e \<longrightarrow>
                  (\<forall>f \<in> set (stacks e). stack_file f \<in> set (this_files s))))"
  proof (intro allI impI)
    fix res s' assume "prepareResults imp out s = Some (Inr res, s')"
    then show "distinct (map fst (parsedDiagnostics imp out s))
          \<and> (distinct (map (\<lambda>(p, errs). resolvePath imp p) (getRawErrsMapFromTsCompile imp out)) \<longrightarrow>
               parsedDiagnostics imp out s
                 = map (\<lambda>(p, errs). (resolvePath imp p, map (suiteError (resolvePath imp p)) errs))
                     (getRawErrsMapFromTsCompile imp out))
          \<and> sourceErrors res
               = concat (map (\<lambda>(p, errs). map fst errs)
                           (filter (\<lambda>(p, errs). p \<notin> set (this_files s)) (parsedDiagnostics imp out s)))
          \<and> (\<forall>x. tasks (objects s' x)
                    = tasks (objects s2 x)
                      @ map Typecheck (allNewTasks imp tsts (parsedDiagnostics imp out s) (objects s2) x
                                         (newSet (this_files s))))
          \<and> (\<forall>p \<in> set (this_files s). \<forall>errs. mapGet (parsedDiagnostics imp out s) p = Some errs \<longrightarrow>
               (\<exists>info. tsts p = Some info
                  \<and> (\<forall>x. length (newTasks (createIndexMap imp) info p (objects s2) x 0 errs)
                           = length (filter (\<lambda>e. owningSuite (createIndexMap imp) info p (snd e) = x) errs))
                  \<and> (\<forall>x. \<forall>t \<in> set (newTasks (createIndexMap imp) info p (objects s2) x 0 errs).
                           tc_suite t = x \<and> tc_file t = file_ref info)))
          \<and> (\<forall>e \<in> set (sourceErrors res). \<forall>f \<in> set (stacks e). stack_file f \<notin> set (this_files s))
          \<and> (\<forall>x. \<forall>t \<in> set (allNewTasks imp tsts (parsedDiagnostics imp out s) (objects s2) x
                                (newSet (this_files s))).
                \<forall>e. error (tc_result t) = Some e \<longrightarrow>
                  (\<forall>f \<in> set (stacks e). stack_file f \<in> set (this_files s)))"
      using assms by (rule classified_of_result)
  qed
  show ?thesis
    by (rule conjI [OF returns classifies])
qed

lemma example_parsedDiagnostics:
  "parsedDiagnostics exampleImports ''x'' exampleChecker =
     [(''/a.ts'', [suiteError ''/a.ts'' (diagnosticAt 3 5), suiteError ''/a.ts'' (diagnosticAt 7 2)]),
      (''/b.ts'', [suiteError ''/b.ts'' (diagnosticAt 1 1)])]"
proof -
  have "stackTraceLimit exampleChecker = 10"
    by (simp add: exampleChecker_def)
  then show ?thesis
    by (simp add: parsedDiagnostics_def example_parse)
qed

lemma example_parsedDiagnostics_uncollected:
  "parsedDiagnostics exampleImports ''x'' uncollectedChecker =
     [(''/a.ts'', [suiteError ''/a.ts'' (diagnosticAt 3 5), suiteError ''/a.ts'' (diagnosticAt 7 2)]),
      (''/b.ts'', [suiteError ''/b.ts'' (diagnosticAt 1 1)])]"
proof -
  have "stackTraceLimit uncollectedChecker = 10"
    by (simp add: uncollectedChecker_def exampleChecker_def)
  then show ?thesis
    by (simp add: parsedDiagnostics_def example_parse)
qed

text \<open>
  C5. The instance is asked for \<open>/a.ts\<close> and \<open>/c.ts\<close>, and collection yields
  \<open>null\<close> for \<open>/c.ts\<close>. The output holds two diagnostics for \<open>/a.ts\<close> and one
  for \<open>/b.ts\<close>, which is not requested. \<open>prepareResults\<close> attaches the two of
  \<open>/a.ts\<close> and throws a \<open>TypeError\<close> at \<open>/c.ts\<close>, before the loop of lines
  129--132 runs: the diagnostic of \<open>/b.ts\<close> is parsed and it is neither attached
  nor appended to \<open>sourceErrors\<close>, for there is no snapshot.
\<close>

theorem diagnostics_lost_on_throw:
  "this_files uncollectedChecker = [''/a.ts'', ''/c.ts'']
   \<and> parsedDiagnostics exampleImports ''x'' uncollectedChecker =
       [(''/a.ts'', [suiteError ''/a.ts'' (diagnosticAt 3 5), suiteError ''/a.ts'' (diagnosticAt 7 2)]),
        (''/b.ts'', [suiteError ''/b.ts'' (diagnosticAt 1 1)])]
   \<and> map_option fst (prepareResults exampleImports ''x'' uncollectedChecker) = Some (Inl TypeError)"
proof -
  let ?es = "[suiteError ''/a.ts'' (diagnosticAt 3 5), suiteError ''/a.ts'' (diagnosticAt 7 2)]"
  have f: "this_files uncollectedChecker = [''/a.ts'', ''/c.ts'']"
    by (simp add: uncollectedChecker_def)
  have cim: "createIndexMap exampleImports = exampleIndexMap"
    by (simp add: exampleImports_def)
  from attachErrors_returns [OF acyclic_nested] obtain h1 where
    h1: "attachErrors exampleIndexMap exampleInfo ''/a.ts'' 0 ?es nested = Some h1" ..
  have "map_option fst (prepareResults exampleImports ''x'' uncollectedChecker)
      = Some (Inl TypeError)"
    using example_parsedDiagnostics_uncollected [unfolded parsedDiagnostics_def]
    by (simp add: prepareResults_eq example_currentTests(2) f mapGet_def cim h1
          del: attachErrors.simps)
  with f example_parsedDiagnostics_uncollected show ?thesis by simp
qed

section \<open>The session: rerun detection and pass completion\<close>

lemma rerunDetected_fields [simp]:
  "outputBuf (rerunDetected s) = outputBuf s"
  "pending (rerunDetected s) = pending s"
  "result_ref (rerunDetected s) = result_ref s"
  "allocated (rerunDetected s) = allocated s"
  "watch (rerunDetected s) = watch s"
  by (simp_all add: rerunDetected_def)

lemma passCompleted_fields [simp]:
  "calls (passCompleted s) = calls s"
  "snapshots (passCompleted s) = snapshots s"
  "result_ref (passCompleted s) = result_ref s"
  "allocated (passCompleted s) = allocated s"
  "watch (passCompleted s) = watch s"
  by (simp_all add: passCompleted_def)

lemma onData_watch:
  "watch s \<Longrightarrow> onData c s = passCompleted (rerunDetected (s\<lparr>outputBuf := outputBuf s @ c\<rparr>))"
  by (simp add: onData_def Let_def)

lemma onData_no_watch: "\<not> watch s \<Longrightarrow> onData c s = s\<lparr>outputBuf := outputBuf s @ c\<rparr>"
  by (simp add: onData_def Let_def)

lemma onData_watch_same [simp]: "watch (onData c s) = watch s"
  by (cases "watch s") (simp_all add: onData_watch onData_no_watch)

lemma onData_trigger:
  assumes "watch s" and "\<not> rerunTriggered s"
    and "includes_str (outputBuf s @ c) ''File change detected''"
  shows "calls (onData c s) = calls s @ [OnWatcherRerun]"
    and "tests (onData c s) = None"
    and "\<not> passComplete (outputBuf s @ c) \<Longrightarrow> rerunTriggered (onData c s)"
  using assms by (simp_all add: onData_watch rerunDetected_def passCompleted_def)

lemma onData_suppress:
  assumes "rerunTriggered s"
  shows "calls (onData c s) = calls s"
    and "watch s \<Longrightarrow> \<not> passComplete (outputBuf s @ c) \<Longrightarrow>
           rerunTriggered (onData c s) \<and> outputBuf (onData c s) = outputBuf s @ c"
  using assms
  by (cases "watch s"; simp add: onData_watch onData_no_watch rerunDetected_def passCompleted_def)+

lemma onData_complete:
  assumes "watch s" and "passComplete (outputBuf s @ c)"
  shows "\<not> rerunTriggered (onData c s)" and "outputBuf (onData c s) = []"
    and "pending (onData c s) = pending s @ [outputBuf s @ c]"
  using assms by (simp_all add: onData_watch passCompleted_def)

lemma onData_count:
  "rerunCalls (onData c s) + (if rerunTriggered (onData c s) then 0 else 1) + length (pending s)
     \<le> rerunCalls s + (if rerunTriggered s then 0 else 1) + length (pending (onData c s))"
  by (cases "watch s")
     (simp_all add: onData_watch onData_no_watch rerunDetected_def passCompleted_def rerunCalls_def)

lemma feed_Cons: "feed (c # cs) s = feed cs (onData c s)"
  by (simp add: feed_def)

lemma feed_count:
  "rerunCalls (feed cs s) + (if rerunTriggered (feed cs s) then 0 else 1) + length (pending s)
     \<le> rerunCalls s + (if rerunTriggered s then 0 else 1) + length (pending (feed cs s))"
proof (induction cs arbitrary: s)
  case Nil
  then show ?case by (simp add: feed_def)
next
  case (Cons c cs)
  from Cons.IH [of "onData c s"] onData_count [of c s]
  show ?case unfolding feed_Cons by linarith
qed

lemma onData_calls_grow: "rerunCalls s \<le> rerunCalls (onData c s)"
  by (cases "watch s")
     (simp_all add: onData_watch onData_no_watch rerunDetected_def rerunCalls_def)

lemma feed_calls_grow: "rerunCalls s \<le> rerunCalls (feed cs s)"
proof (induction cs arbitrary: s)
  case Nil
  then show ?case by (simp add: feed_def)
next
  case (Cons c cs)
  from Cons.IH [of "onData c s"] onData_calls_grow [of s c]
  show ?case unfolding feed_Cons by linarith
qed

lemma feed_append: "feed (xs @ ys) s = feed ys (feed xs s)"
  by (simp add: feed_def)

lemma feed_samePass:
  "watch s \<Longrightarrow> rerunTriggered s \<Longrightarrow> samePass (outputBuf s) cs \<Longrightarrow>
     calls (feed cs s) = calls s \<and> rerunTriggered (feed cs s) \<and> watch (feed cs s)
     \<and> outputBuf (feed cs s) = outputBuf s @ concat cs"
proof (induction cs arbitrary: s)
  case Nil
  then show ?case by (simp add: feed_def)
next
  case (Cons c cs)
  from Cons.prems have np: "\<not> passComplete (outputBuf s @ c)"
    and rest: "samePass (outputBuf s @ c) cs"
    by simp_all
  from onData_suppress [OF Cons.prems(2), of c] Cons.prems(1) np
  have c1: "calls (onData c s) = calls s" and t1: "rerunTriggered (onData c s)"
    and b1: "outputBuf (onData c s) = outputBuf s @ c"
    by simp_all
  have w1: "watch (onData c s)" using Cons.prems(1) by simp
  from rest b1 have "samePass (outputBuf (onData c s)) cs" by simp
  from Cons.IH [OF w1 t1 this] show ?case
    unfolding feed_Cons by (simp add: c1 b1)
qed

lemma feed_cycle:
  assumes "watch s" and "\<not> rerunTriggered s"
    and "includes_str (outputBuf s @ c0) ''File change detected''"
    and "samePass (outputBuf s) (c0 # cs)"
    and "passComplete (outputBuf s @ concat (c0 # cs) @ c1)"
  shows "calls (feed (c0 # cs @ [c1]) s) = calls s @ [OnWatcherRerun]
         \<and> \<not> rerunTriggered (feed (c0 # cs @ [c1]) s)
         \<and> outputBuf (feed (c0 # cs @ [c1]) s) = []"
proof -
  let ?s1 = "onData c0 s"
  from assms(4) have np: "\<not> passComplete (outputBuf s @ c0)"
    and rest: "samePass (outputBuf s @ c0) cs"
    by simp_all
  from onData_trigger [OF assms(1,2,3)] np have
    c1: "calls ?s1 = calls s @ [OnWatcherRerun]" and t1: "rerunTriggered ?s1"
    by simp_all
  have w1: "watch ?s1" using assms(1) by simp
  have b1: "outputBuf ?s1 = outputBuf s @ c0"
    using assms(1) np by (simp add: onData_watch passCompleted_def)
  from rest b1 have "samePass (outputBuf ?s1) cs" by simp
  from feed_samePass [OF w1 t1 this] have
    c2: "calls (feed cs ?s1) = calls ?s1" and t2: "rerunTriggered (feed cs ?s1)"
    and w2: "watch (feed cs ?s1)" and b2: "outputBuf (feed cs ?s1) = outputBuf ?s1 @ concat cs"
    by simp_all
  from assms(5) have p: "passComplete (outputBuf (feed cs ?s1) @ c1)"
    by (simp add: b2 b1)
  from onData_suppress(1) [OF t2, of c1] onData_complete [OF w2 p]
  have "calls (onData c1 (feed cs ?s1)) = calls (feed cs ?s1)"
    and "\<not> rerunTriggered (onData c1 (feed cs ?s1))"
    and "outputBuf (onData c1 (feed cs ?s1)) = []"
    by simp_all
  moreover have "feed (c0 # cs @ [c1]) s = onData c1 (feed cs ?s1)"
    by (simp add: feed_def)
  ultimately show ?thesis
    by (simp add: c1 c2)
qed

text \<open>
  In watch mode a chunk that brings the rerun marker into the buffer while the flag is
  clear calls \<open>onWatcherRerun\<close> once. While the flag is set no chunk calls it, and
  the flag stays set until a chunk completes the pass. A chunk that completes the pass
  clears the flag, empties the buffer and hands the buffer to \<open>prepareResults\<close>.
  A sequence of chunks that brings the marker, stays in the pass and ends with the
  chunk completing it calls \<open>onWatcherRerun\<close> exactly once.
\<close>

lemma rerun_once_per_cycle:
  "(watch s \<and> \<not> rerunTriggered s \<and> includes_str (outputBuf s @ c) ''File change detected'' \<longrightarrow>
      calls (onData c s) = calls s @ [OnWatcherRerun]
      \<and> (\<not> passComplete (outputBuf s @ c) \<longrightarrow> rerunTriggered (onData c s)))
   \<and> (rerunTriggered s \<longrightarrow> calls (onData c s) = calls s)
   \<and> (watch s \<and> rerunTriggered s \<and> \<not> passComplete (outputBuf s @ c) \<longrightarrow>
        rerunTriggered (onData c s) \<and> outputBuf (onData c s) = outputBuf s @ c)
   \<and> (watch s \<and> passComplete (outputBuf s @ c) \<longrightarrow>
        \<not> rerunTriggered (onData c s) \<and> outputBuf (onData c s) = []
        \<and> pending (onData c s) = pending s @ [outputBuf s @ c])
   \<and> (watch s \<and> rerunTriggered s \<and> samePass (outputBuf s) cs \<longrightarrow>
        calls (feed cs s) = calls s \<and> rerunTriggered (feed cs s))
   \<and> (watch s \<and> \<not> rerunTriggered s
        \<and> includes_str (outputBuf s @ c0) ''File change detected''
        \<and> samePass (outputBuf s) (c0 # ds)
        \<and> passComplete (outputBuf s @ concat (c0 # ds) @ c1) \<longrightarrow>
        calls (feed (c0 # ds @ [c1]) s) = calls s @ [OnWatcherRerun]
        \<and> \<not> rerunTriggered (feed (c0 # ds @ [c1]) s)
        \<and> outputBuf (feed (c0 # ds @ [c1]) s) = [])
   \<and> rerunCalls (feed cs s) + (if rerunTriggered (feed cs s) then 0 else 1) + length (pending s)
        \<le> rerunCalls s + (if rerunTriggered s then 0 else 1) + length (pending (feed cs s))
   \<and> rerunCalls s \<le> rerunCalls (feed cs s)"
proof -
  have trigger: "watch s \<and> \<not> rerunTriggered s
      \<and> includes_str (outputBuf s @ c) ''File change detected'' \<longrightarrow>
      calls (onData c s) = calls s @ [OnWatcherRerun]
      \<and> (\<not> passComplete (outputBuf s @ c) \<longrightarrow> rerunTriggered (onData c s))"
    using onData_trigger [of s c] by blast
  have suppress: "rerunTriggered s \<longrightarrow> calls (onData c s) = calls s"
    using onData_suppress(1) [of s c] by blast
  have open_pass: "watch s \<and> rerunTriggered s \<and> \<not> passComplete (outputBuf s @ c) \<longrightarrow>
        rerunTriggered (onData c s) \<and> outputBuf (onData c s) = outputBuf s @ c"
    using onData_suppress(2) [of s c] by blast
  have complete: "watch s \<and> passComplete (outputBuf s @ c) \<longrightarrow>
        \<not> rerunTriggered (onData c s) \<and> outputBuf (onData c s) = []
        \<and> pending (onData c s) = pending s @ [outputBuf s @ c]"
    using onData_complete [of s c] by blast
  have same: "watch s \<and> rerunTriggered s \<and> samePass (outputBuf s) cs \<longrightarrow>
        calls (feed cs s) = calls s \<and> rerunTriggered (feed cs s)"
    using feed_samePass [of s cs] by blast
  have cycle: "watch s \<and> \<not> rerunTriggered s
        \<and> includes_str (outputBuf s @ c0) ''File change detected''
        \<and> samePass (outputBuf s) (c0 # ds)
        \<and> passComplete (outputBuf s @ concat (c0 # ds) @ c1) \<longrightarrow>
        calls (feed (c0 # ds @ [c1]) s) = calls s @ [OnWatcherRerun]
        \<and> \<not> rerunTriggered (feed (c0 # ds @ [c1]) s)
        \<and> outputBuf (feed (c0 # ds @ [c1]) s) = []"
    using feed_cycle [of s c0 ds c1] by blast
  from trigger suppress open_pass complete same cycle feed_count [of cs s] feed_calls_grow [of s cs]
  show ?thesis by blast
qed

lemma marker_alone:
  "includes_str ''File change detected'' ''File change detected''"
  "\<not> passComplete ''File change detected''"
  by code_simp+

lemma marker_again:
  "\<not> passComplete ''File change detectedFile change detected''"
  by code_simp

lemma found_2:
  "passComplete ''File change detectedFile change detectedFound 2 errors. Watching for''"
  by code_simp

lemma straddling_buffers:
  "passComplete ''File change detectedFound 2 errors. Watching forFile change detected''"
  "passComplete ''Found 2 errors. Watching for''"
  "\<not> includes_str ''Found 2 errors. Watching for'' ''File change detected''"
  "passComplete ''Found 2 errors. Watching forFile change detected''"
  "includes_str ''Found 2 errors. Watching forFile change detected'' ''File change detected''"
  by code_simp+

text \<open>
  C9. Two sequences of chunks in watch mode, from a clear flag and an empty buffer. In
  the first the second chunk carries the completion of the first pass followed by
  the marker of the next change, and the third chunk the completion of that second
  pass: two change-to-completion cycles are completed and \<open>onWatcherRerun\<close> is
  called once, the second marker being discarded with the buffer. In the second the
  first chunk carries a completion followed by the marker, and the next chunk the
  marker again: the marker occurs twice in one pass and \<open>onWatcherRerun\<close> is called
  twice.
\<close>

theorem rerun_miscounted_across_chunks:
  "rerunCalls (feed [''File change detected'',
                     ''Found 2 errors. Watching forFile change detected'',
                     ''Found 2 errors. Watching for''] exampleChecker) = 1
   \<and> length (pending (feed [''File change detected'',
                     ''Found 2 errors. Watching forFile change detected'',
                     ''Found 2 errors. Watching for''] exampleChecker)) = 2
   \<and> rerunCalls (feed [''Found 2 errors. Watching forFile change detected'',
                       ''File change detected''] exampleChecker) = 2
   \<and> length (pending (feed [''Found 2 errors. Watching forFile change detected'',
                       ''File change detected''] exampleChecker)) = 1"
proof -
  let ?m = "''File change detected''"
  let ?fm = "''Found 2 errors. Watching forFile change detected''"
  let ?f = "''Found 2 errors. Watching for''"
  have s0: "watch exampleChecker" "\<not> rerunTriggered exampleChecker"
    "outputBuf exampleChecker = []" "calls exampleChecker = []" "pending exampleChecker = []"
    by (simp_all add: exampleChecker_def)
  let ?a1 = "onData ?m exampleChecker"
  have a1: "watch ?a1" "rerunTriggered ?a1" "outputBuf ?a1 = ?m"
    "calls ?a1 = [OnWatcherRerun]" "pending ?a1 = []"
    by (simp_all add: onData_watch rerunDetected_def passCompleted_def s0 marker_alone)
  let ?a2 = "onData ?fm ?a1"
  have a2: "watch ?a2" "\<not> rerunTriggered ?a2" "outputBuf ?a2 = []"
    "calls ?a2 = [OnWatcherRerun]" "length (pending ?a2) = 1"
    using straddling_buffers(1)
    by (simp_all add: onData_watch [OF a1(1)] rerunDetected_def passCompleted_def a1 s0)
  let ?a3 = "onData ?f ?a2"
  have a3: "calls ?a3 = [OnWatcherRerun]" "length (pending ?a3) = 2"
    using straddling_buffers(2,3)
    by (simp_all add: onData_watch [OF a2(1)] rerunDetected_def passCompleted_def a2 s0)
  let ?b1 = "onData ?fm exampleChecker"
  have b1: "watch ?b1" "\<not> rerunTriggered ?b1" "outputBuf ?b1 = []"
    "calls ?b1 = [OnWatcherRerun]" "length (pending ?b1) = 1"
    using straddling_buffers(4,5)
    by (simp_all add: onData_watch rerunDetected_def passCompleted_def s0)
  let ?b2 = "onData ?m ?b1"
  have b2: "calls ?b2 = [OnWatcherRerun, OnWatcherRerun]" "length (pending ?b2) = 1"
    using marker_alone
    by (simp_all add: onData_watch [OF b1(1)] rerunDetected_def passCompleted_def b1 s0)
  from a3 b2 show ?thesis
    by (simp add: feed_def rerunCalls_def)
qed

section \<open>The session: the published snapshot\<close>

lemma collectTests_fields:
  "snapshots (snd (collectTests imp s)) = snapshots s"
  "allocated (snd (collectTests imp s)) = allocated s"
  "result_ref (snd (collectTests imp s)) = result_ref s"
  by (simp_all add: collectTests_def split: prod.splits)

lemma currentTests_fields:
  "snapshots (snd (currentTests imp s)) = snapshots s"
  "allocated (snd (currentTests imp s)) = allocated s"
  "result_ref (snd (currentTests imp s)) = result_ref s"
  by (simp_all add: currentTests_def collectTests_fields split: option.splits)

lemma prepareResults_fields:
  assumes "prepareResults imp out s = Some (r, s')"
  shows "snapshots s' = snapshots s" and "allocated s' = allocated s"
    and "result_ref s' = result_ref s"
proof -
  obtain tsts s2 where c: "currentTests imp s = (tsts, s2)"
    by (cases "currentTests imp s")
  from currentTests_fields [of imp s] c
  have "snapshots s2 = snapshots s" "allocated s2 = allocated s" "result_ref s2 = result_ref s"
    by simp_all
  moreover from assms c obtain h where "s' = s2\<lparr>objects := h\<rparr>"
    by (auto simp: prepareResults_eq split: option.splits sum.splits)
  ultimately show "snapshots s' = snapshots s" and "allocated s' = allocated s"
    and "result_ref s' = result_ref s"
    by simp_all
qed

lemma publish_fresh:
  assumes "result_ref s < allocated s"
  shows "result_ref (publish res s) \<noteq> result_ref s"
    and "snapshots (publish res s) (result_ref (publish res s)) = res"
    and "\<forall>r < allocated s. snapshots (publish res s) r = snapshots s r"
    and "result_ref (publish res s) < allocated (publish res s)"
  using assms by (simp_all add: publish_def)

lemma settle_publishes:
  assumes "settle imp s = Some s'" and "result_ref s < allocated s"
  shows "\<forall>r < allocated s. snapshots s' r = snapshots s r"
    and "result_ref s' = result_ref s \<or> result_ref s' = allocated s"
proof -
  have "(\<forall>r < allocated s. snapshots s' r = snapshots s r)
      \<and> (result_ref s' = result_ref s \<or> result_ref s' = allocated s)"
  proof (cases "pending s")
    case Nil
    with assms show ?thesis by (simp add: settle_def)
  next
    case (Cons out rest)
    with assms obtain r s1 where
      p: "prepareResults imp out (s\<lparr>pending := rest\<rparr>) = Some (r, s1)"
      and s': "s' = (case r of Inl e \<Rightarrow> s1 | Inr res \<Rightarrow> publish res s1)"
      by (auto simp: settle_def split: option.splits sum.splits)
    from prepareResults_fields [OF p] have
      f: "snapshots s1 = snapshots s" "allocated s1 = allocated s" "result_ref s1 = result_ref s"
      by simp_all
    show ?thesis
    proof (cases r)
      case (Inl e)
      with s' f show ?thesis by simp
    next
      case (Inr res)
      with s' f show ?thesis by (simp add: publish_def)
    qed
  qed
  then show "\<forall>r < allocated s. snapshots s' r = snapshots s r"
    and "result_ref s' = result_ref s \<or> result_ref s' = allocated s"
    by simp_all
qed

lemma finishOneShot_publishes:
  assumes "finishOneShot imp s = Some (r, s')" and "result_ref s < allocated s"
  shows "\<forall>x < allocated s. snapshots s' x = snapshots s x"
proof -
  from assms(1) obtain r1 s1 where
    p: "prepareResults imp (outputBuf s) s = Some (r1, s1)"
    and s': "s' = (case r1 of Inl e \<Rightarrow> s1 | Inr res \<Rightarrow> publish res s1)"
    by (auto simp: finishOneShot_def split: option.splits sum.splits)
  from prepareResults_fields [OF p] have
    f: "snapshots s1 = snapshots s" "allocated s1 = allocated s"
    by simp_all
  show ?thesis
  proof (cases r1)
    case (Inl e)
    with s' f show ?thesis by simp
  next
    case (Inr res)
    with s' f show ?thesis by (simp add: publish_def)
  qed
qed

text \<open>
  C2, as the code has it. Publishing a result makes \<open>_result\<close> refer to the object
  just built and writes to no object that existed before, the previously published
  one included; so do the end of a one-shot run and the settling of a
  \<open>prepareResults\<close> promise, which publish or, when the promise is rejected, leave
  \<open>_result\<close> as it is. The
  clearing at a detected rerun is done in place: \<open>_result\<close> refers to the same
  object, whose \<open>files\<close> and \<open>sourceErrors\<close> are now empty. A chunk that does not
  trigger the rerun leaves every snapshot object as it is.
\<close>

theorem snapshot_replaced_or_cleared_in_place:
  "(result_ref s < allocated s \<longrightarrow>
      result_ref (publish res s) \<noteq> result_ref s
      \<and> snapshots (publish res s) (result_ref (publish res s)) = res
      \<and> (\<forall>r < allocated s. snapshots (publish res s) r = snapshots s r))
   \<and> (result_ref s < allocated s \<longrightarrow> (\<forall>s'. settle imp s = Some s' \<longrightarrow>
        (\<forall>r < allocated s. snapshots s' r = snapshots s r)
        \<and> (result_ref s' = result_ref s \<or> result_ref s' = allocated s)))
   \<and> (result_ref s < allocated s \<longrightarrow> (\<forall>r s'. finishOneShot imp s = Some (r, s') \<longrightarrow>
        (\<forall>x < allocated s. snapshots s' x = snapshots s x)))
   \<and> (watch s \<and> \<not> rerunTriggered s \<and> includes_str (outputBuf s @ c) ''File change detected'' \<longrightarrow>
        result_ref (onData c s) = result_ref s
        \<and> snapshots (onData c s) (result_ref s) = \<lparr>files = [], sourceErrors = []\<rparr>
        \<and> (\<forall>r. r \<noteq> result_ref s \<longrightarrow> snapshots (onData c s) r = snapshots s r))
   \<and> (\<not> (watch s \<and> \<not> rerunTriggered s \<and> includes_str (outputBuf s @ c) ''File change detected'') \<longrightarrow>
        result_ref (onData c s) = result_ref s \<and> snapshots (onData c s) = snapshots s)"
proof -
  have p: "result_ref s < allocated s \<longrightarrow>
      result_ref (publish res s) \<noteq> result_ref s
      \<and> snapshots (publish res s) (result_ref (publish res s)) = res
      \<and> (\<forall>r < allocated s. snapshots (publish res s) r = snapshots s r)"
    using publish_fresh [of s res] by blast
  have q: "result_ref s < allocated s \<longrightarrow> (\<forall>s'. settle imp s = Some s' \<longrightarrow>
        (\<forall>r < allocated s. snapshots s' r = snapshots s r)
        \<and> (result_ref s' = result_ref s \<or> result_ref s' = allocated s))"
    using settle_publishes [of imp s] by blast
  have o: "result_ref s < allocated s \<longrightarrow> (\<forall>r s'. finishOneShot imp s = Some (r, s') \<longrightarrow>
        (\<forall>x < allocated s. snapshots s' x = snapshots s x))"
    using finishOneShot_publishes [of imp s] by blast
  have r: "watch s \<and> \<not> rerunTriggered s \<and> includes_str (outputBuf s @ c) ''File change detected'' \<longrightarrow>
        result_ref (onData c s) = result_ref s
        \<and> snapshots (onData c s) (result_ref s) = \<lparr>files = [], sourceErrors = []\<rparr>
        \<and> (\<forall>r. r \<noteq> result_ref s \<longrightarrow> snapshots (onData c s) r = snapshots s r)"
    by (simp add: onData_watch rerunDetected_def)
  have t: "\<not> (watch s \<and> \<not> rerunTriggered s \<and> includes_str (outputBuf s @ c) ''File change detected'') \<longrightarrow>
        result_ref (onData c s) = result_ref s \<and> snapshots (onData c s) = snapshots s"
    by (cases "watch s") (auto simp: onData_watch onData_no_watch rerunDetected_def)
  from p q o r t show ?thesis by blast
qed

lemma publishedChecker_fields:
  "watch publishedChecker" "\<not> rerunTriggered publishedChecker"
  "outputBuf publishedChecker = []" "result_ref publishedChecker = 0"
  "allocated publishedChecker = 1"
  "snapshots publishedChecker 0 = \<lparr>files = [0], sourceErrors = []\<rparr>"
  by (simp_all add: publishedChecker_def exampleChecker_def)

theorem snapshot_replaced_or_cleared_in_place_witness:
  "result_ref publishedChecker < allocated publishedChecker
   \<and> result_ref (publish \<lparr>files = [], sourceErrors = []\<rparr> publishedChecker) = 1
   \<and> snapshots (publish \<lparr>files = [], sourceErrors = []\<rparr> publishedChecker) 0
       = \<lparr>files = [0], sourceErrors = []\<rparr>
   \<and> watch publishedChecker \<and> \<not> rerunTriggered publishedChecker
   \<and> includes_str (outputBuf publishedChecker @ ''File change detected'') ''File change detected''
   \<and> result_ref (onData ''File change detected'' publishedChecker) = 0
   \<and> snapshots (onData ''File change detected'' publishedChecker) 0
       = \<lparr>files = [], sourceErrors = []\<rparr>
   \<and> \<not> (watch publishedChecker \<and> \<not> rerunTriggered publishedChecker
        \<and> includes_str (outputBuf publishedChecker @ ''Found'') ''File change detected'')
   \<and> snapshots (onData ''Found'' publishedChecker) 0 = \<lparr>files = [0], sourceErrors = []\<rparr>"
proof -
  let ?m = "''File change detected''"
  let ?e = "\<lparr>files = [], sourceErrors = []\<rparr>"
  have lt: "result_ref publishedChecker < allocated publishedChecker"
    by (simp add: publishedChecker_fields)
  have inc: "includes_str (outputBuf publishedChecker @ ?m) ?m"
    by (simp add: publishedChecker_fields marker_alone)
  have ninc: "\<not> includes_str (outputBuf publishedChecker @ ''Found'') ?m"
    unfolding publishedChecker_fields by code_simp
  from snapshot_replaced_or_cleared_in_place [of publishedChecker ?e exampleImports ?m] lt
    publishedChecker_fields inc
  have a: "snapshots (publish ?e publishedChecker) 0 = \<lparr>files = [0], sourceErrors = []\<rparr>"
    and b: "result_ref (onData ?m publishedChecker) = 0"
    and c: "snapshots (onData ?m publishedChecker) 0 = ?e"
    by auto
  from snapshot_replaced_or_cleared_in_place [of publishedChecker ?e exampleImports "''Found''"]
    ninc publishedChecker_fields
  have d: "snapshots (onData ''Found'' publishedChecker) 0 = \<lparr>files = [0], sourceErrors = []\<rparr>"
    by auto
  have e: "result_ref (publish ?e publishedChecker) = 1"
    by (simp add: publish_def publishedChecker_fields)
  from lt a b c d e inc ninc publishedChecker_fields show ?thesis
    by simp
qed

text \<open>
  C2, as specified, fails. The published snapshot lists the file \<open>0\<close>. The
  chunk with the rerun marker leaves \<open>_result\<close> referring to the same object and
  that object is no longer what was published: it has been emptied in place.
\<close>

theorem snapshot_mutated_counterexample:
  "result_ref (onData ''File change detected'' publishedChecker) = result_ref publishedChecker
   \<and> snapshots publishedChecker (result_ref publishedChecker) = \<lparr>files = [0], sourceErrors = []\<rparr>
   \<and> snapshots (onData ''File change detected'' publishedChecker) (result_ref publishedChecker)
       = \<lparr>files = [], sourceErrors = []\<rparr>
   \<and> snapshots (onData ''File change detected'' publishedChecker) (result_ref publishedChecker)
       \<noteq> snapshots publishedChecker (result_ref publishedChecker)"
  by (simp add: onData_watch rerunDetected_def publishedChecker_fields marker_alone)

end
